theory Spec2Isabelle
  imports Main "HOL-Library.FSet" "HOL-Library.Char_ord" "HOL-Library.List_Lexorder"
begin

section \<open>Values exchanged with the remote API\<close>

text \<open>
  Decoded JSON as Python sees it: \<open>None\<close>, booleans, integers, strings, lists and
  dictionaries (an association list; \<open>map_of\<close> is the lookup). Floating-point numbers
  are left out of the model. Text is \<open>string\<close>; the character classes used below are
  Python's, restricted to ASCII text.
\<close>

datatype json =
    JNull
  | JBool bool
  | JInt int
  | JStr string
  | JArr "json list"
  | JObj "(string \<times> json) list"

text \<open>
  Exceptions by the class that the handlers of the source tell apart:
  \<open>requests.RequestException\<close>, any other subclass of \<open>Exception\<close> (a \<open>ValueError\<close> from the
  JSON decoder, an \<open>AttributeError\<close>, a \<open>TypeError\<close>), and the \<open>RuntimeError\<close>s the scripts raise
  themselves. Each carries its message.
\<close>

datatype exn =
    RequestException string
  | OtherException string
  | RuntimeError string

text \<open>
  What one call of \<open>session.get\<close> does: it raises, or it answers with a status code and a
  body on which \<open>r.json()\<close> raises or returns a decoded value.
\<close>

datatype body = BadJson exn | Json json

datatype reply = GetRaises exn | Reply int body

text \<open>
  The outside world of one run: the answer to the n-th request and the n-th draw of
  \<open>random.uniform(0, 1.0)\<close>. The state counts the requests sent and the numbers drawn and
  keeps the durations handed to \<open>time.sleep\<close>, oldest first. Durations are rationals:
  the values the source computes from 2.0 by doubling and by the minimum with 60 are exact
  as floats; the rounding of the sum with the jitter is not modelled.
\<close>

record world =
  http :: "nat \<Rightarrow> reply"
  uniform :: "nat \<Rightarrow> rat"

record io =
  sent :: nat
  drawn :: nat
  slept :: "rat list"

definition io0 :: io where
  "io0 = \<lparr>sent = 0, drawn = 0, slept = []\<rparr>"

definition sleep :: "rat \<Rightarrow> io \<Rightarrow> io" where
  "sleep d st = st\<lparr>slept := slept st @ [d]\<rparr>"

section \<open>Python's built-in string operations, on ASCII text\<close>

text \<open>\<open>str(n)\<close> for an integer: decimal digits, a minus sign for negative numbers.\<close>

definition digit :: "nat \<Rightarrow> char" where
  "digit d = ''0123456789'' ! d"

function str_nat :: "nat \<Rightarrow> string" where
  "str_nat n = (if n < 10 then [digit n] else str_nat (n div 10) @ [digit (n mod 10)])"
  by pat_completeness auto
termination
  by (relation "measure id") auto

declare str_nat.simps [simp del]

definition str_int :: "int \<Rightarrow> string" where
  "str_int i = (if i < 0 then CHR ''-'' # str_nat (nat (- i)) else str_nat (nat i))"

text \<open>\<open>str(e)\<close> for an exception: its message.\<close>

fun message :: "exn \<Rightarrow> string" where
  "message (RequestException m) = m"
| "message (OtherException m) = m"
| "message (RuntimeError m) = m"

section \<open>The fetch client of fetch\_warhammer\_pages\_for\_lightrag.py\<close>

definition MAX_RETRIES :: nat where
  "MAX_RETRIES = 6"

definition INITIAL_BACKOFF :: rat where
  "INITIAL_BACKOFF = 2"

text \<open>
  \<open>isinstance(data, dict) and "error" in data and data["error"].get("code") == "maxlag"\<close>.
  Only a dictionary has \<open>.get\<close>: on any other value of \<open>data["error"]\<close> the attribute
  lookup raises \<open>AttributeError\<close>.
\<close>

definition is_maxlag :: "json \<Rightarrow> exn + bool" where
  "is_maxlag data =
     (case data of
        JObj kvs \<Rightarrow>
          (case map_of kvs ''error'' of
             None \<Rightarrow> Inr False
           | Some (JObj err) \<Rightarrow> Inr (map_of err ''code'' = Some (JStr ''maxlag''))
           | Some _ \<Rightarrow> Inl (OtherException ''AttributeError''))
      | _ \<Rightarrow> Inr False)"

text \<open>
  One pass through the body of the \<open>for\<close> loop: it returns the data, goes on to the next
  attempt with a new backoff, or raises. Every sleep of the source is recorded in the
  state before the step is left.
\<close>

datatype step = Return json | Continue rat | Raise exn

definition on_exception :: "exn \<Rightarrow> nat \<Rightarrow> rat \<Rightarrow> io \<Rightarrow> step \<times> io" where
  "on_exception e attempt backoff st =
     (case e of
        RequestException _ \<Rightarrow> (Continue (min (backoff * 2) 60), sleep backoff st)
      | _ \<Rightarrow>
          (if attempt = MAX_RETRIES then (Raise e, sleep backoff st)
           else (Continue (min (backoff * 2) 60), sleep backoff st)))"

definition attempt_once :: "world \<Rightarrow> nat \<Rightarrow> rat \<Rightarrow> io \<Rightarrow> step \<times> io" where
  "attempt_once w attempt backoff st =
     (let r = http w (sent st); st1 = st\<lparr>sent := sent st + 1\<rparr> in
      case r of
        GetRaises e \<Rightarrow> on_exception e attempt backoff st1
      | Reply status_code b \<Rightarrow>
          if status_code = 429 \<or> (500 \<le> status_code \<and> status_code < 600)
          then (Continue (backoff * 2), sleep backoff st1)
          else
            (case b of
               BadJson e \<Rightarrow> on_exception e attempt backoff st1
             | Json data \<Rightarrow>
                 (case is_maxlag data of
                    Inl e \<Rightarrow> on_exception e attempt backoff st1
                  | Inr True \<Rightarrow>
                      (let j = uniform w (drawn st1);
                           st2 = st1\<lparr>drawn := drawn st1 + 1\<rparr>
                       in (Continue (min (backoff * 2) 60), sleep (backoff + j) st2))
                  | Inr False \<Rightarrow> (Return data, st1))))"

text \<open>\<open>for attempt in range(1, MAX_RETRIES + 1)\<close>, then the \<open>raise\<close> after the loop.\<close>

fun fetch_loop :: "world \<Rightarrow> nat list \<Rightarrow> rat \<Rightarrow> io \<Rightarrow> (exn + json) \<times> io" where
  "fetch_loop w [] backoff st = (Inl (RuntimeError ''Max retries exceeded''), st)"
| "fetch_loop w (attempt # rest) backoff st =
     (case attempt_once w attempt backoff st of
        (Return data, st') \<Rightarrow> (Inr data, st')
      | (Raise e, st') \<Rightarrow> (Inl e, st')
      | (Continue backoff', st') \<Rightarrow> fetch_loop w rest backoff' st')"

definition fetch_with_backoff :: "world \<Rightarrow> io \<Rightarrow> (exn + json) \<times> io" where
  "fetch_with_backoff w st = fetch_loop w [1 ..< MAX_RETRIES + 1] INITIAL_BACKOFF st"

section \<open>The fetch client of fetch\_warhammer\_pages\_for\_lightrag\_v3.py\<close>

text \<open>
  The debugging version keeps the \<open>for\<close> loop, but its body leaves the loop on the first
  pass: it returns \<open>r.json()\<close> whatever the status code, and wraps any exception, with the
  text of \<open>traceback.format_exc()\<close> (a parameter here), into a \<open>RuntimeError\<close>.
\<close>

definition wrap_v3 :: "(exn \<Rightarrow> string) \<Rightarrow> nat \<Rightarrow> exn \<Rightarrow> exn" where
  "wrap_v3 format_exc attempt e =
     RuntimeError (''HTTP/JSON failure on attempt '' @ str_nat attempt @ '': '' @ message e
                   @ ''\<newline>'' @ format_exc e)"

fun fetch_loop_v3 :: "(exn \<Rightarrow> string) \<Rightarrow> world \<Rightarrow> nat list \<Rightarrow> io \<Rightarrow> (exn + json) \<times> io" where
  "fetch_loop_v3 format_exc w [] st = (Inl (RuntimeError ''Max retries exceeded''), st)"
| "fetch_loop_v3 format_exc w (attempt # rest) st =
     (let r = http w (sent st); st1 = st\<lparr>sent := sent st + 1\<rparr> in
      case r of
        GetRaises e \<Rightarrow> (Inl (wrap_v3 format_exc attempt e), st1)
      | Reply status_code (BadJson e) \<Rightarrow> (Inl (wrap_v3 format_exc attempt e), st1)
      | Reply status_code (Json data) \<Rightarrow> (Inr data, st1))"

definition fetch_with_backoff_v3 :: "(exn \<Rightarrow> string) \<Rightarrow> world \<Rightarrow> io \<Rightarrow> (exn + json) \<times> io" where
  "fetch_with_backoff_v3 format_exc w st = fetch_loop_v3 format_exc w [1 ..< MAX_RETRIES + 1] st"

section \<open>File names (url\_split.py)\<close>

text \<open>
  \<open>safe_filename\<close> first folds the title to a plain base name. The two calls into
  \<open>unicodedata\<close> (NFKD normalisation, and the test for combining marks) are parameters;
  the character class of the regular expression is ASCII by its own text.
\<close>

definition is_alnum :: "char \<Rightarrow> bool" where
  "is_alnum c =
     ((CHR ''A'' \<le> c \<and> c \<le> CHR ''Z'') \<or> (CHR ''a'' \<le> c \<and> c \<le> CHR ''z'')
      \<or> (CHR ''0'' \<le> c \<and> c \<le> CHR ''9''))"

text \<open>\<open>re.sub(r"[^A-Za-z0-9]+", "_", txt)\<close>: every maximal run of other characters becomes one underscore.\<close>

function sub_non_alnum :: "string \<Rightarrow> string" where
  "sub_non_alnum [] = []"
| "sub_non_alnum (c # cs) =
     (if is_alnum c then c # sub_non_alnum cs
      else CHR ''_'' # sub_non_alnum (dropWhile (\<lambda>d. \<not> is_alnum d) cs))"
  by pat_completeness auto
termination
  by (relation "measure length") (auto simp: le_imp_less_Suc length_dropWhile_le)

text \<open>\<open>s.strip(chars)\<close>, with the set of characters as a predicate.\<close>

definition strip_chars :: "(char \<Rightarrow> bool) \<Rightarrow> string \<Rightarrow> string" where
  "strip_chars P s = rev (dropWhile P (rev (dropWhile P s)))"

definition slug :: "(string \<Rightarrow> string) \<Rightarrow> (char \<Rightarrow> bool) \<Rightarrow> string \<Rightarrow> string" where
  "slug nfkd combining title =
     (let txt = nfkd title;
          txt = filter (\<lambda>c. \<not> combining c) txt;
          txt = strip_chars (\<lambda>c. c = CHR ''_'') (sub_non_alnum txt)
      in if txt = [] then ''page'' else txt)"

text \<open>
  \<open>f"{base}_{idx}"\<close>. Different indices give different names, since the decimal form of
  a number determines it; so a finite set holds finitely many of them, and the search
  for a free name ends.
\<close>

lemma digit_inj: "d < 10 \<Longrightarrow> d' < 10 \<Longrightarrow> digit d = digit d' \<Longrightarrow> d = d'"
  unfolding digit_def
  by (subst (asm) nth_eq_iff_index_eq) simp_all

lemma str_nat_nonempty: "str_nat n \<noteq> []"
  by (subst str_nat.simps) simp

lemma str_nat_inj: "str_nat m = str_nat n \<Longrightarrow> m = n"
proof (induction m arbitrary: n rule: str_nat.induct)
  case (1 m)
  show ?case
  proof (cases "m < 10")
    case True
    then have n: "n < 10"
      using "1.prems" str_nat_nonempty[of "n div 10"]
      by (subst (asm) (1 2) str_nat.simps) (auto split: if_splits)
    with True "1.prems" show ?thesis
      by (subst (asm) (1 2) str_nat.simps) (auto dest: digit_inj)
  next
    case False
    then have n: "\<not> n < 10"
      using "1.prems" str_nat_nonempty[of "m div 10"]
      by (subst (asm) (1 2) str_nat.simps) (auto split: if_splits)
    from False n "1.prems" have e: "str_nat (m div 10) = str_nat (n div 10)"
      and d: "digit (m mod 10) = digit (n mod 10)"
      by (subst (asm) (1 2) str_nat.simps; simp)+
    from "1.IH"[OF False e] have "m div 10 = n div 10" .
    moreover from d have "m mod 10 = n mod 10" by (auto dest!: digit_inj[rotated 2])
    ultimately show ?thesis by (metis div_mult_mod_eq)
  qed
qed

definition numbered :: "string \<Rightarrow> nat \<Rightarrow> string" where
  "numbered base idx = base @ ''_'' @ str_nat idx"

lemma numbered_inj: "numbered base i = numbered base j \<Longrightarrow> i = j"
  by (simp add: numbered_def str_nat_inj)

lemma finite_numbered: "finite {j. numbered base j |\<in>| taken}"
proof -
  have "{j. numbered base j |\<in>| taken} = numbered base -` fset taken" by auto
  moreover have "inj (numbered base)" by (auto intro: injI numbered_inj)
  ultimately show ?thesis by (simp add: finite_vimageI)
qed

definition pending :: "string \<Rightarrow> string fset \<Rightarrow> string \<Rightarrow> nat \<Rightarrow> nat" where
  "pending base taken candidate idx =
     card {j. idx < j \<and> numbered base j |\<in>| taken} + (if candidate |\<in>| taken then 1 else 0)"

lemma pending_step:
  assumes "candidate |\<in>| taken"
  shows "pending base taken (numbered base (idx + 1)) (idx + 1) < pending base taken candidate idx"
proof -
  let ?A = "{j. idx < j \<and> numbered base j |\<in>| taken}"
  let ?B = "{j. idx + 1 < j \<and> numbered base j |\<in>| taken}"
  have fin: "finite ?A" using finite_numbered[of base taken] by (rule rev_finite_subset) auto
  show ?thesis
  proof (cases "numbered base (idx + 1) |\<in>| taken")
    case True
    then have "?A = insert (idx + 1) ?B" by (auto simp: less_Suc_eq Suc_lessI)
    moreover have "idx + 1 \<notin> ?B" by simp
    moreover have "finite ?B" using fin by (rule rev_finite_subset) auto
    ultimately have "card ?A = card ?B + 1" by simp
    with True assms show ?thesis by (simp add: pending_def)
  next
    case False
    then have "?A = ?B" by (auto simp: Suc_lessI) (metis Suc_lessI)
    with False assms show ?thesis by (simp add: pending_def)
  qed
qed

text \<open>
  The \<open>while candidate in taken\<close> loop, on the pair of \<open>candidate\<close> and \<open>idx\<close>. The set of
  names in use is finite, as every Python set is.
\<close>

function next_free :: "string \<Rightarrow> string fset \<Rightarrow> string \<Rightarrow> nat \<Rightarrow> string" where
  "next_free base taken candidate idx =
     (if candidate |\<in>| taken then next_free base taken (base @ ''_'' @ str_nat (idx + 1)) (idx + 1)
      else candidate)"
  by pat_completeness auto
termination
proof (relation "measure (\<lambda>(base, taken, candidate, idx). pending base taken candidate idx)")
  show "wf (measure (\<lambda>(base, taken, candidate, idx). pending base taken candidate idx))" by simp
next
  fix base candidate :: string and taken :: "string fset" and idx :: nat
  assume "candidate |\<in>| taken"
  then show "((base, taken, base @ ''_'' @ str_nat (idx + 1), idx + 1), (base, taken, candidate, idx))
        \<in> measure (\<lambda>(base, taken, candidate, idx). pending base taken candidate idx)"
    using pending_step[of candidate taken base idx] by (simp add: numbered_def)
qed

declare next_free.simps [simp del]

text \<open>
  The function returns the file name and the set after \<open>taken.add(candidate)\<close>.
\<close>

definition safe_filename ::
  "(string \<Rightarrow> string) \<Rightarrow> (char \<Rightarrow> bool) \<Rightarrow> string \<Rightarrow> string fset \<Rightarrow> string \<Rightarrow> string \<times> string fset" where
  "safe_filename nfkd combining title taken ext =
     (let base = slug nfkd combining title;
          candidate = next_free base taken base 1
      in (candidate @ ext, finsert candidate taken))"


section \<open>More string operations\<close>

text \<open>
  White space as \<open>str.strip\<close>, \<open>str.split\<close> and the class \<open>\s\<close> of \<open>re\<close> see it, among
  ASCII characters: tab, line feed, vertical tab, form feed, carriage return, the four
  separators 0x1C to 0x1F, and the space.
\<close>

definition is_space :: "char \<Rightarrow> bool" where
  "is_space c = (c \<in> {CHR 0x09, CHR 0x0A, CHR 0x0B, CHR 0x0C, CHR 0x0D,
                       CHR 0x1C, CHR 0x1D, CHR 0x1E, CHR 0x1F, CHR '' ''})"

text \<open>\<open>s.strip()\<close>\<close>

definition strip :: "string \<Rightarrow> string" where
  "strip s = strip_chars is_space s"

text \<open>\<open>s.lower()\<close>, on ASCII letters.\<close>

definition lower_char :: "char \<Rightarrow> char" where
  "lower_char c =
     (case map_of (zip ''ABCDEFGHIJKLMNOPQRSTUVWXYZ'' ''abcdefghijklmnopqrstuvwxyz'') c of
        Some d \<Rightarrow> d
      | None \<Rightarrow> c)"

definition lower :: "string \<Rightarrow> string" where
  "lower s = map lower_char s"

text \<open>\<open>sep.join(xs)\<close>\<close>

fun join :: "string \<Rightarrow> string list \<Rightarrow> string" where
  "join sep [] = []"
| "join sep [x] = x"
| "join sep (x # y # ys) = x @ sep @ join sep (y # ys)"





section \<open>The markup converter (fetch\_warhammer\_pages\_for\_lightrag.py)\<close>




















section \<open>The section splitter (url\_split.py)\<close>

text \<open>
  \<open>s.replace(old, new)\<close> for a non-empty \<open>old\<close>: the occurrences are replaced from the
  left, without overlap.
\<close>

function replace_all :: "string \<Rightarrow> string \<Rightarrow> string \<Rightarrow> string" where
  "replace_all old new [] = []"
| "replace_all old new (c # cs) =
     (if old \<noteq> [] \<and> take (length old) (c # cs) = old
      then new @ replace_all old new (drop (length old) (c # cs))
      else c # replace_all old new cs)"
  by pat_completeness auto
termination
  by (relation "measure (\<lambda>(old, new, s). length s)") auto

text \<open>
  The regular expressions of \<open>clean_pagecontent\<close> are written out as the scans they
  perform. A literal pattern under \<open>re.I\<close> matches at the start of a text when the
  characters agree up to the case of ASCII letters.
\<close>

fun prefix_ci :: "string \<Rightarrow> string \<Rightarrow> bool" where
  "prefix_ci [] s = True"
| "prefix_ci (p # ps) [] = False"
| "prefix_ci (p # ps) (c # cs) = (lower_char p = lower_char c \<and> prefix_ci ps cs)"

lemma prefix_ci_length: "prefix_ci p s \<Longrightarrow> length p \<le> length s"
  by (induction p s rule: prefix_ci.induct) auto

text \<open>
  The first match of a literal pattern, ignoring case, as a lazy \<open>.*?\<close> or \<open>[\s\S]*?\<close>
  before the literal finds it: the text skipped and the text after the match.
\<close>

fun find_ci :: "string \<Rightarrow> string \<Rightarrow> (string \<times> string) option" where
  "find_ci pat [] = (if pat = [] then Some ([], []) else None)"
| "find_ci pat (c # cs) =
     (if prefix_ci pat (c # cs) then Some ([], drop (length pat) (c # cs))
      else map_option (\<lambda>(before, after). (c # before, after)) (find_ci pat cs))"

lemma find_ci_length: "find_ci pat s = Some (before, after) \<Longrightarrow> length after \<le> length s"
  by (induction s arbitrary: before) (auto split: if_splits)

text \<open>
  \<open>re.sub(r"<name[\s\S]*?</name>", "", html, flags=re.I)\<close>: from an opening \<open><name\<close> to the
  first closing tag after it; an opening with no closing tag after it stays.
\<close>

function remove_element :: "string \<Rightarrow> string \<Rightarrow> string" where
  "remove_element name [] = []"
| "remove_element name (c # cs) =
     (if prefix_ci (CHR ''<'' # name) (c # cs) then
        (case find_ci (''</'' @ name @ ''>'') (drop (length (CHR ''<'' # name)) (c # cs)) of
           Some (inner, rest) \<Rightarrow> remove_element name rest
         | None \<Rightarrow> c # remove_element name cs)
      else c # remove_element name cs)"
  by pat_completeness auto
termination
  by (relation "measure (\<lambda>(name, s). length s)")
     (auto dest!: find_ci_length simp: le_imp_less_Suc intro: le_trans)

text \<open>
  A word character of \<open>\b\<close>: a letter, a digit or the underscore.
\<close>

definition is_word :: "char \<Rightarrow> bool" where
  "is_word c = (is_alnum c \<or> c = CHR ''_'')"

text \<open>\<open>h2\b\<close> at the start of the text: the two characters, then the end or a non-word character.\<close>

definition h2_word :: "string \<Rightarrow> bool" where
  "h2_word r = (prefix_ci ''h2'' r \<and> (case drop 2 r of [] \<Rightarrow> True | d # _ \<Rightarrow> \<not> is_word d))"

text \<open>The lookahead \<open>/?h2\b\<close>: a slash, if there is one, is taken first.\<close>

definition h2_ahead :: "string \<Rightarrow> bool" where
  "h2_ahead r = (case r of [] \<Rightarrow> False | d # ds \<Rightarrow> if d = CHR ''/'' then h2_word ds else h2_word r)"

text \<open>The text after the first \<open>>\<close>, for \<open>[^>]*>\<close>.\<close>

definition after_gt :: "string \<Rightarrow> string" where
  "after_gt s = tl (dropWhile (\<lambda>d. d \<noteq> CHR ''>'') s)"

lemma length_after_gt: "length (after_gt s) \<le> length s"
  by (simp add: after_gt_def) (metis diff_le_self le_trans length_dropWhile_le)

text \<open>
  \<open>re.sub(r"<(?!/?h2\b)[^>]*>", "", html, flags=re.I)\<close>: every tag except the opening
  and closing h2 tags is removed, from its \<open><\<close> to the next \<open>>\<close>.
\<close>

function keep_h2_only :: "string \<Rightarrow> string" where
  "keep_h2_only [] = []"
| "keep_h2_only (c # cs) =
     (if c = CHR ''<'' \<and> \<not> h2_ahead cs \<and> CHR ''>'' \<in> set cs
      then keep_h2_only (after_gt cs)
      else c # keep_h2_only cs)"
  by pat_completeness auto
termination
  by (relation "measure length") (auto simp: le_imp_less_Suc length_after_gt)

text \<open>\<open>re.sub(r"<[^>]+>", "", s)\<close>: a \<open><\<close>, at least one other character, and the next \<open>>\<close>.\<close>

function strip_tags :: "string \<Rightarrow> string" where
  "strip_tags [] = []"
| "strip_tags (c # cs) =
     (if c = CHR ''<'' \<and> takeWhile (\<lambda>d. d \<noteq> CHR ''>'') cs \<noteq> [] \<and> CHR ''>'' \<in> set cs
      then strip_tags (after_gt cs)
      else c # strip_tags cs)"
  by pat_completeness auto
termination
  by (relation "measure length") (auto simp: le_imp_less_Suc length_after_gt)

text \<open>\<open>re.sub(old, new, s, flags=re.I)\<close> for a literal \<open>old\<close>.\<close>

function replace_ci :: "string \<Rightarrow> string \<Rightarrow> string \<Rightarrow> string" where
  "replace_ci old new [] = []"
| "replace_ci old new (c # cs) =
     (if old \<noteq> [] \<and> prefix_ci old (c # cs)
      then new @ replace_ci old new (drop (length old) (c # cs))
      else c # replace_ci old new cs)"
  by pat_completeness auto
termination
  by (relation "measure (\<lambda>(old, new, s). length s)") auto

text \<open>\<open>re.sub(r"[ \t]+", " ", s)\<close>\<close>

definition is_blank :: "char \<Rightarrow> bool" where
  "is_blank c = (c = CHR '' '' \<or> c = CHR 0x09)"

function squeeze_blanks :: "string \<Rightarrow> string" where
  "squeeze_blanks [] = []"
| "squeeze_blanks (c # cs) =
     (if is_blank c then CHR '' '' # squeeze_blanks (dropWhile is_blank cs)
      else c # squeeze_blanks cs)"
  by pat_completeness auto
termination
  by (relation "measure length") (auto simp: le_imp_less_Suc length_dropWhile_le)

text \<open>
  \<open>re.sub(r"\n\s*\n\s*\n+", "\n\n", s)\<close>. A match starts at a line feed and lies inside the
  run of white space that starts there; it exists when the run holds two more line
  feeds, and the greedy \<open>\s*\<close> then carry it to the last line feed of the run.
\<close>

definition newline :: char where
  "newline = CHR 0x0A"

definition after_last_newline :: "string \<Rightarrow> string" where
  "after_last_newline w = rev (takeWhile (\<lambda>d. d \<noteq> newline) (rev w))"

lemma length_after_last_newline: "length (after_last_newline w) \<le> length w"
  unfolding after_last_newline_def using length_takeWhile_le[of _ "rev w"] by simp

function squash_blank_lines :: "string \<Rightarrow> string" where
  "squash_blank_lines [] = []"
| "squash_blank_lines (c # cs) =
     (if c = newline \<and> 2 \<le> count_list (takeWhile is_space cs) newline
      then newline # newline #
           squash_blank_lines (after_last_newline (takeWhile is_space cs) @ dropWhile is_space cs)
      else c # squash_blank_lines cs)"
  by pat_completeness auto
termination
proof (relation "measure length")
  fix c :: char and cs :: string
  have "length (after_last_newline (takeWhile is_space cs)) + length (dropWhile is_space cs)
        \<le> length (takeWhile is_space cs) + length (dropWhile is_space cs)"
    using length_after_last_newline[of "takeWhile is_space cs"] by simp
  also have "\<dots> = length cs"
    by (metis length_append takeWhile_dropWhile_id)
  finally show "(after_last_newline (takeWhile is_space cs) @ dropWhile is_space cs, c # cs)
      \<in> measure length" by simp
qed auto

text \<open>The inner function \<open>clean_text\<close> of \<open>clean_pagecontent\<close>.\<close>

definition clean_text :: "string \<Rightarrow> string" where
  "clean_text s =
     (let s = strip_tags s;
          s = replace_ci ''&nbsp;'' '' '' s;
          s = squeeze_blanks s;
          s = squash_blank_lines s
      in strip s)"


text \<open>\<open>re.search(r"<h2\b", h_only, flags=re.I)\<close> and \<open>re.match(r"^<h2\b", h_only, flags=re.I)\<close>.\<close>

fun has_h2 :: "string \<Rightarrow> bool" where
  "has_h2 [] = False"
| "has_h2 (c # cs) = ((c = CHR ''<'' \<and> h2_word cs) \<or> has_h2 cs)"

definition starts_with_h2 :: "string \<Rightarrow> bool" where
  "starts_with_h2 s = (case s of [] \<Rightarrow> False | c # cs \<Rightarrow> c = CHR ''<'' \<and> h2_word cs)"

text \<open>
  The dictionaries that the loop over \<open>header_re.finditer(h_only)\<close> collects: the inner
  text of the heading and the positions where the match starts and ends.
\<close>

record header =
  h_title :: string
  h_start :: nat
  h_end :: nat

text \<open>
  \<open><h2[^>]*>(.*?)</h2>\<close> with \<open>re.I | re.S\<close>, tried at the start of a text: the group and
  the text after the match.
\<close>

definition match_header :: "string \<Rightarrow> (string \<times> string) option" where
  "match_header s =
     (if prefix_ci ''<h2'' s \<and> CHR ''>'' \<in> set (drop 3 s)
      then find_ci ''</h2>'' (after_gt (drop 3 s))
      else None)"

lemma match_header_length:
  assumes "match_header s = Some (t, rest)"
  shows "length rest < length s"
proof -
  from assms have p: "prefix_ci ''<h2'' s" and f: "find_ci ''</h2>'' (after_gt (drop 3 s)) = Some (t, rest)"
    by (auto simp: match_header_def split: if_splits)
  from p have "3 \<le> length s" using prefix_ci_length by fastforce
  moreover from f have "length rest \<le> length (after_gt (drop 3 s))" by (rule find_ci_length)
  moreover have "length (after_gt (drop 3 s)) \<le> length s - 3"
    using length_after_gt[of "drop 3 s"] by simp
  ultimately show ?thesis by simp
qed

text \<open>The matches from the left, without overlap, with their positions.\<close>

function finditer_headers :: "nat \<Rightarrow> string \<Rightarrow> header list" where
  "finditer_headers pos [] = []"
| "finditer_headers pos (c # cs) =
     (case match_header (c # cs) of
        Some (t, rest) \<Rightarrow>
          \<lparr>h_title = t, h_start = pos, h_end = pos + (length (c # cs) - length rest)\<rparr>
          # finditer_headers (pos + (length (c # cs) - length rest)) rest
      | None \<Rightarrow> finditer_headers (pos + 1) cs)"
  by pat_completeness auto
termination
  by (relation "measure (\<lambda>(pos, s). length s)") (auto dest: match_header_length)

definition BANNED_SECTIONS :: "string set" where
  "BANNED_SECTIONS = {''contents'', ''videos'', ''sources'', ''gallery'', ''bibliography''}"

definition INCLUDE_HEADINGS :: bool where
  "INCLUDE_HEADINGS = True"

text \<open>
  \<open>re.sub(r"\[\]$", "", title)\<close>: the dollar matches at the end of the text and before a
  line feed that ends it.
\<close>

definition drop_final_brackets :: "string \<Rightarrow> string" where
  "drop_final_brackets t =
     (let n = length t in
      if 2 \<le> n \<and> drop (n - 2) t = ''[]'' then take (n - 2) t
      else if 3 \<le> n \<and> drop (n - 3) t = [CHR ''['', CHR '']'', newline] then take (n - 3) t @ [newline]
      else t)"

text \<open>\<open>key.split()\<close>: the words between runs of white space.\<close>

function split_ws :: "string \<Rightarrow> string list" where
  "split_ws s =
     (let s' = dropWhile is_space s in
      if s' = [] then []
      else takeWhile (\<lambda>c. \<not> is_space c) s' # split_ws (dropWhile (\<lambda>c. \<not> is_space c) s'))"
  by pat_completeness auto
termination
proof (relation "measure length")
  fix s s' :: string
  assume "s' = dropWhile is_space s" "s' \<noteq> []"
  then have "\<not> is_space (hd s')" by (metis hd_dropWhile)
  with \<open>s' \<noteq> []\<close> have "length (dropWhile (\<lambda>c. \<not> is_space c) s') < length s'"
    by (cases s') (auto simp: le_imp_less_Suc length_dropWhile_le)
  also have "length s' \<le> length s" using \<open>s' = dropWhile is_space s\<close> by (simp add: length_dropWhile_le)
  finally show "(dropWhile (\<lambda>c. \<not> is_space c) s', s) \<in> measure length" by simp
qed simp

declare split_ws.simps [simp del]

text \<open>
  The body of the loop over the headers, for one heading and the markup up to the next
  one: \<open>None\<close> where the source says \<open>continue\<close>, otherwise the text appended to \<open>parts\<close>.
  The key is the stripped title in lower case, so \<open>key.split()\<close> has a first word whenever
  the key is not empty.
\<close>

text \<open>The title of a heading: tags stripped, a final \<open>[]\<close> removed, white space trimmed.\<close>

definition heading_title :: "string \<Rightarrow> string" where
  "heading_title title_html =
     (let title = strip_tags title_html
      in strip (drop_final_brackets title))"

definition section_part :: "string \<Rightarrow> string \<Rightarrow> string option" where
  "section_part title_html body_html =
     (let title = heading_title title_html;
          key = lower title;
          body = clean_text body_html
      in if body = [] then None
         else
           (let first_word = (if key \<noteq> [] then hd (split_ws key) else [])
            in if key \<in> BANNED_SECTIONS \<or> first_word \<in> BANNED_SECTIONS then None
               else if INCLUDE_HEADINGS \<and> title \<noteq> [] \<and> key \<noteq> ''intro''
                    then Some (''## '' @ title @ [newline, newline] @ body)
                    else Some body))"

text \<open>The loop \<open>for i, h in enumerate(headers)\<close>, with the slice \<open>h_only[start:next_start]\<close>.\<close>

fun collect_parts :: "string \<Rightarrow> header list \<Rightarrow> string list" where
  "collect_parts h_only [] = []"
| "collect_parts h_only (h # hs) =
     (let next_start = (case hs of [] \<Rightarrow> length h_only | h' # _ \<Rightarrow> h_start h');
          body_html = take (next_start - h_end h) (drop (h_end h) h_only)
      in (case section_part (h_title h) body_html of
            None \<Rightarrow> collect_parts h_only hs
          | Some part \<Rightarrow> part # collect_parts h_only hs))"

text \<open>\<open>re.sub(r"\n{3,}", "\n\n", pagecontent)\<close>\<close>

function squash_newlines :: "string \<Rightarrow> string" where
  "squash_newlines [] = []"
| "squash_newlines (c # cs) =
     (if c = newline \<and> 2 \<le> length (takeWhile (\<lambda>d. d = newline) cs)
      then newline # newline # squash_newlines (dropWhile (\<lambda>d. d = newline) cs)
      else c # squash_newlines cs)"
  by pat_completeness auto
termination
  by (relation "measure length") (auto simp: le_imp_less_Suc length_dropWhile_le)

text \<open>The three \<open>replace\<close> calls that undo the escaping: of the backslash, the quote and \<open>\n\<close>.\<close>

definition unescape :: "string \<Rightarrow> string" where
  "unescape html =
     replace_all [CHR 0x5C, CHR ''n''] [newline]
       (replace_all [CHR 0x5C, CHR 0x22] [CHR 0x22]
         (replace_all [CHR 0x5C, CHR 0x5C] [CHR 0x5C] html))"

text \<open>\<open>clean_pagecontent\<close> from the markup on.\<close>

definition clean_html :: "string \<Rightarrow> string" where
  "clean_html html0 =
     (let html = unescape html0;
          html = remove_element ''script'' html;
          html = remove_element ''noscript'' html;
          html = remove_element ''style'' html;
          html = remove_element ''figure'' html;
          h_only = keep_h2_only html
      in if \<not> has_h2 h_only then clean_text h_only
         else
           (let h_only = (if \<not> starts_with_h2 h_only \<and> strip h_only \<noteq> []
                          then ''<h2>Intro</h2>'' @ h_only else h_only);
                headers = finditer_headers 0 h_only;
                parts = collect_parts h_only headers;
                pagecontent = join [newline, newline] parts
            in strip (squash_newlines pagecontent)))"


section \<open>How Python prints and tests values\<close>

text \<open>The values that count as false in \<open>x or y\<close> and \<open>if x\<close>.\<close>

definition falsy :: "json \<Rightarrow> bool" where
  "falsy v = (v \<in> {JNull, JBool False, JInt 0, JStr [], JArr [], JObj []})"

text \<open>
  \<open>repr\<close> of a string: quoted with the apostrophe, or with the double quote when the text
  holds an apostrophe and no double quote; the backslash, the quote and the control
  characters are escaped.
\<close>

definition hex2 :: "nat \<Rightarrow> string" where
  "hex2 n = [''0123456789abcdef'' ! (n div 16), ''0123456789abcdef'' ! (n mod 16)]"

definition escape_char :: "char \<Rightarrow> char \<Rightarrow> string" where
  "escape_char q c =
     (if c = CHR 0x5C then [CHR 0x5C, CHR 0x5C]
      else if c = q then [CHR 0x5C, q]
      else if c = CHR 0x0A then [CHR 0x5C, CHR ''n'']
      else if c = CHR 0x0D then [CHR 0x5C, CHR ''r'']
      else if c = CHR 0x09 then [CHR 0x5C, CHR ''t'']
      else if c < CHR '' '' \<or> c = CHR 0x7F then [CHR 0x5C, CHR ''x''] @ hex2 (of_char c)
      else [c])"

definition repr_str :: "string \<Rightarrow> string" where
  "repr_str s =
     (let q = (if CHR 0x27 \<in> set s \<and> CHR 0x22 \<notin> set s then CHR 0x22 else CHR 0x27)
      in [q] @ concat (map (escape_char q) s) @ [q])"

text \<open>\<open>repr(v)\<close> and \<open>str(v)\<close>: they differ on strings only.\<close>

fun py_repr :: "json \<Rightarrow> string" where
  "py_repr JNull = ''None''"
| "py_repr (JBool b) = (if b then ''True'' else ''False'')"
| "py_repr (JInt i) = str_int i"
| "py_repr (JStr s) = repr_str s"
| "py_repr (JArr xs) = ''['' @ join '', '' (map py_repr xs) @ '']''"
| "py_repr (JObj kvs) =
     ''{'' @ join '', '' (map (\<lambda>(k, v). repr_str k @ '': '' @ py_repr v) kvs) @ ''}''"

definition py_str :: "json \<Rightarrow> string" where
  "py_str v = (case v of JStr s \<Rightarrow> s | _ \<Rightarrow> py_repr v)"

section \<open>The page cleaner and the document writer (url\_split.py)\<close>

text \<open>\<open>html = str(parse.get("text") or "")\<close>, then the cleaning.\<close>

definition clean_pagecontent :: "(string \<times> json) list \<Rightarrow> string" where
  "clean_pagecontent parse =
     (let html = py_str (case map_of parse ''text'' of
                           None \<Rightarrow> JStr []
                         | Some v \<Rightarrow> if falsy v then JStr [] else v)
      in clean_html html)"

record PageOutput =
  title :: string
  fullurl :: string
  categories :: "string list"
  pagecontent :: string

text \<open>
  \<open>write_doc\<close> returns the path and the text written to it, and the set of names in use.
\<close>

definition write_doc ::
  "(string \<Rightarrow> string) \<Rightarrow> (char \<Rightarrow> bool) \<Rightarrow> string \<Rightarrow> PageOutput \<Rightarrow> string fset
   \<Rightarrow> (string \<times> string) \<times> string fset" where
  "write_doc nfkd combining out_dir page taken =
     (let (fname, taken') = safe_filename nfkd combining (title page) taken ''.md'';
          path = out_dir @ ''/'' @ fname;
          header = [''---'', ''title: '' @ [CHR 0x22] @ title page @ [CHR 0x22], ''categories:'']
                   @ map (\<lambda>c. ''  - '' @ c) (categories page) @ [''---''];
          content = join [newline] header @ [newline, newline] @ pagecontent page @ [newline]
      in ((path, content), taken'))"

section \<open>Categories (url\_split.py and fetch\_warhammer\_pages\_for\_lightrag.py)\<close>


text \<open>
  \<open>for c in v\<close>: the elements of a list, the keys of a dictionary, the characters of a
  string; any other value is not iterable.
\<close>

definition py_iter :: "json \<Rightarrow> exn + json list" where
  "py_iter v =
     (case v of
        JArr xs \<Rightarrow> Inr xs
      | JObj kvs \<Rightarrow> Inr (map (\<lambda>(k, x). JStr k) kvs)
      | JStr s \<Rightarrow> Inr (map (\<lambda>c. JStr [c]) s)
      | _ \<Rightarrow> Inl (OtherException ''TypeError''))"















section \<open>The crawl over the pages (both fetch scripts)\<close>

text \<open>
  Operations on a decoded value of any type: \<open>key in v\<close>, \<open>v.get(key)\<close>, \<open>v[key]\<close> and
  \<open>v or d\<close>. Where Python raises a \<open>TypeError\<close>, an \<open>AttributeError\<close> or a \<open>KeyError\<close>, the
  model returns an exception named after the class (the message texts of these library
  exceptions are not modelled).
\<close>

fun substring :: "string \<Rightarrow> string \<Rightarrow> bool" where
  "substring p [] = (p = [])"
| "substring p (c # cs) = (take (length p) (c # cs) = p \<or> substring p cs)"

definition py_in :: "string \<Rightarrow> json \<Rightarrow> exn + bool" where
  "py_in key v =
     (case v of
        JObj kvs \<Rightarrow> Inr (key \<in> fst ` set kvs)
      | JArr xs \<Rightarrow> Inr (JStr key \<in> set xs)
      | JStr s \<Rightarrow> Inr (substring key s)
      | _ \<Rightarrow> Inl (OtherException ''TypeError''))"

definition py_get :: "json \<Rightarrow> string \<Rightarrow> exn + json" where
  "py_get v key =
     (case v of
        JObj kvs \<Rightarrow> Inr (case map_of kvs key of Some x \<Rightarrow> x | None \<Rightarrow> JNull)
      | _ \<Rightarrow> Inl (OtherException ''AttributeError''))"

definition py_item :: "json \<Rightarrow> string \<Rightarrow> exn + json" where
  "py_item v key =
     (case v of
        JObj kvs \<Rightarrow> (case map_of kvs key of Some x \<Rightarrow> Inr x | None \<Rightarrow> Inl (OtherException ''KeyError''))
      | _ \<Rightarrow> Inl (OtherException ''TypeError''))"

definition or_else :: "json \<Rightarrow> json \<Rightarrow> json" where
  "or_else v d = (if falsy v then d else v)"

text \<open>
  A row of the page table (identifier, title, URL), and a record of the failure list; the
  v3 script adds the traceback to each record.
\<close>

record row =
  row_page_id :: int
  row_title :: string
  row_url :: string

record failure =
  fail_page_id :: int
  fail_title :: string
  fail_url :: string
  fail_error :: string
  fail_traceback :: "string option"

text \<open>
  The \<open>try\<close> block after the fetch, on the \<open>USE_PARSE\<close> path that the scripts have switched
  on. An error object in the answer and an empty text raise a \<open>RuntimeError\<close>; the
  conversion to text and the writing of the file, which may raise as well, are one
  parameter that returns the path written.
\<close>

definition parse_branch ::
  "(row \<Rightarrow> json \<Rightarrow> json \<Rightarrow> json \<Rightarrow> exn + string) \<Rightarrow> row \<Rightarrow> json \<Rightarrow> exn + string" where
  "parse_branch convert_and_write p data =
     (case py_in ''error'' data of
        Inl e \<Rightarrow> Inl e
      | Inr True \<Rightarrow>
          (case py_item data ''error'' of
             Inl e \<Rightarrow> Inl e
           | Inr err \<Rightarrow> Inl (RuntimeError (''API error: '' @ py_str err)))
      | Inr False \<Rightarrow>
          (case py_get data ''parse'' of
             Inl e \<Rightarrow> Inl e
           | Inr v \<Rightarrow>
               (let parsed = or_else v (JObj []) in
                case py_get parsed ''text'' of
                  Inl e \<Rightarrow> Inl e
                | Inr t \<Rightarrow>
                    (let html = or_else t (JStr []) in
                     case py_get parsed ''sections'' of
                       Inl e \<Rightarrow> Inl e
                     | Inr s \<Rightarrow>
                         (let sections = or_else s (JArr []) in
                          case py_get parsed ''categories'' of
                            Inl e \<Rightarrow> Inl e
                          | Inr c \<Rightarrow>
                              (let categories = or_else c (JArr []) in
                               if falsy html then Inl (RuntimeError ''Empty HTML content'')
                               else convert_and_write p html sections categories))))))"

text \<open>
  The state of a run: the network state, the lines printed, and the failure list. The
  wait between pages (\<open>sleep_politely\<close>) depends on the wall clock and is left out.
\<close>

record run =
  run_io :: io
  stdout :: "string list"
  fail_rows :: "failure list"

definition progress :: "nat \<Rightarrow> nat \<Rightarrow> string" where
  "progress idx n_rows = ''['' @ str_nat (idx + 1) @ ''/'' @ str_nat n_rows @ '']''"

text \<open>
  \<open>for idx, row in df.iterrows()\<close>: the \<open>except Exception\<close> clause turns every exception of
  the \<open>try\<close> block into one line on the output and one record appended to the list, and
  the loop goes on. The fetch function and the traceback field are parameters, since the
  two scripts differ in nothing else here.
\<close>

fun main_loop ::
  "(world \<Rightarrow> io \<Rightarrow> (exn + json) \<times> io) \<Rightarrow> (exn \<Rightarrow> string option)
   \<Rightarrow> (row \<Rightarrow> json \<Rightarrow> json \<Rightarrow> json \<Rightarrow> exn + string) \<Rightarrow> world \<Rightarrow> nat \<Rightarrow> nat \<Rightarrow> row list \<Rightarrow> run \<Rightarrow> run" where
  "main_loop fetch tb convert_and_write w n_rows idx [] r = r"
| "main_loop fetch tb convert_and_write w n_rows idx (p # ps) r =
     (let (fetched, st) = fetch w (run_io r);
          outcome = (case fetched of Inl e \<Rightarrow> Inl e | Inr data \<Rightarrow> parse_branch convert_and_write p data)
      in case outcome of
           Inr out_path \<Rightarrow>
             main_loop fetch tb convert_and_write w n_rows (idx + 1) ps
               (r\<lparr>run_io := st, stdout := stdout r @ [progress idx n_rows @ '' wrote '' @ out_path]\<rparr>)
         | Inl e \<Rightarrow>
             main_loop fetch tb convert_and_write w n_rows (idx + 1) ps
               (r\<lparr>run_io := st,
                  stdout := stdout r @ [progress idx n_rows @ '' FAIL page_id='' @ str_int (row_page_id p)
                                        @ '': '' @ message e],
                  fail_rows := fail_rows r @
                    [\<lparr>fail_page_id = row_page_id p, fail_title = row_title p, fail_url = row_url p,
                      fail_error = message e, fail_traceback = tb e\<rparr>]\<rparr>))"

text \<open>
  After the loop the failure list is written to \<open>FAIL_LOG\<close> when it is not empty: the second
  component is the content of that file, if it is written.
\<close>

definition FAIL_LOG :: string where
  "FAIL_LOG = ''out/failures.csv''"

definition crawl ::
  "(world \<Rightarrow> io \<Rightarrow> (exn + json) \<times> io) \<Rightarrow> (exn \<Rightarrow> string option)
   \<Rightarrow> (row \<Rightarrow> json \<Rightarrow> json \<Rightarrow> json \<Rightarrow> exn + string) \<Rightarrow> world \<Rightarrow> row list
   \<Rightarrow> run \<times> failure list option" where
  "crawl fetch tb convert_and_write w df =
     (let r = main_loop fetch tb convert_and_write w (length df) 0 df
                \<lparr>run_io = io0, stdout = [], fail_rows = []\<rparr>
      in if fail_rows r \<noteq> []
         then (r\<lparr>stdout := stdout r @ [''Wrote failures to '' @ FAIL_LOG]\<rparr>, Some (fail_rows r))
         else (r, None))"

definition main ::
  "(row \<Rightarrow> json \<Rightarrow> json \<Rightarrow> json \<Rightarrow> exn + string) \<Rightarrow> world \<Rightarrow> row list \<Rightarrow> run \<times> failure list option" where
  "main convert_and_write w df = crawl fetch_with_backoff (\<lambda>e. None) convert_and_write w df"

definition main_v3 ::
  "(exn \<Rightarrow> string) \<Rightarrow> (row \<Rightarrow> json \<Rightarrow> json \<Rightarrow> json \<Rightarrow> exn + string) \<Rightarrow> world \<Rightarrow> row list
   \<Rightarrow> run \<times> failure list option" where
  "main_v3 format_exc convert_and_write w df =
     crawl (fetch_with_backoff_v3 format_exc) (\<lambda>e. Some (format_exc e)) convert_and_write w df"


text \<open>
  For the statement of the claim: what each page's \<open>try\<close> block ends in, page by page, and
  the identity and error text of the pages that failed.
\<close>

fun page_outcomes ::
  "(world \<Rightarrow> io \<Rightarrow> (exn + json) \<times> io) \<Rightarrow> (row \<Rightarrow> json \<Rightarrow> json \<Rightarrow> json \<Rightarrow> exn + string)
   \<Rightarrow> world \<Rightarrow> io \<Rightarrow> row list \<Rightarrow> (exn + string) list" where
  "page_outcomes fetch convert_and_write w st [] = []"
| "page_outcomes fetch convert_and_write w st (p # ps) =
     (let (fetched, st') = fetch w st;
          outcome = (case fetched of Inl e \<Rightarrow> Inl e | Inr data \<Rightarrow> parse_branch convert_and_write p data)
      in outcome # page_outcomes fetch convert_and_write w st' ps)"

fun failed_pages :: "(row \<times> (exn + string)) list \<Rightarrow> (int \<times> string \<times> string \<times> string) list" where
  "failed_pages [] = []"
| "failed_pages ((p, Inl e) # xs) = (row_page_id p, row_title p, row_url p, message e) # failed_pages xs"
| "failed_pages ((p, Inr out_path) # xs) = failed_pages xs"

definition identity_and_error :: "failure \<Rightarrow> int \<times> string \<times> string \<times> string" where
  "identity_and_error f = (fail_page_id f, fail_title f, fail_url f, fail_error f)"

text \<open>
  A run over four pages: the first gets six 429 answers, the second an error object, the
  third an empty text, the fourth a page that is written.
\<close>

definition four_pages :: world where
  "four_pages =
     \<lparr>http = (\<lambda>n. if n < 6 then Reply 429 (BadJson (OtherException ''ValueError''))
                   else if n = 6 then Reply 200 (Json (JObj [(''error'', JObj [(''code'', JStr ''nosuchpageid'')])]))
                   else if n = 7 then Reply 200 (Json (JObj [(''parse'', JObj [(''text'', JStr [])])]))
                   else Reply 200 (Json (JObj [(''parse'', JObj [(''text'', JStr ''<p>x</p>'')])]))),
      uniform = (\<lambda>n. 0)\<rparr>"

definition four_rows :: "row list" where
  "four_rows = map (\<lambda>i. \<lparr>row_page_id = i, row_title = ''T'', row_url = ''u''\<rparr>) [11, 12, 13, 14]"

definition sample_writer :: "row \<Rightarrow> json \<Rightarrow> json \<Rightarrow> json \<Rightarrow> exn + string" where
  "sample_writer p html secs cats = Inr (''out/pages/'' @ str_int (row_page_id p) @ ''.md'')"

section \<open>The pagination crawler (get\_urls.py)\<close>

text \<open>
  A dictionary of request parameters keeps the order of its keys. \<open>{**params, **cont}\<close>
  sets the keys of \<open>cont\<close> one after the other: a key that is present keeps its place and
  takes the new value, a new key goes to the end.
\<close>

type_synonym dict = "(string \<times> json) list"

fun dict_set :: "string \<Rightarrow> json \<Rightarrow> dict \<Rightarrow> dict" where
  "dict_set k v [] = [(k, v)]"
| "dict_set k v ((k', v') # d) = (if k' = k then (k, v) # d else (k', v') # dict_set k v d)"

definition merge :: "dict \<Rightarrow> dict \<Rightarrow> dict" where
  "merge a b = fold (\<lambda>(k, v) d. dict_set k v d) b a"

text \<open>
  The three calls inside the \<open>try\<close> block: \<open>session.get\<close>, \<open>raise_for_status\<close> (an \<open>HTTPError\<close>
  for a 4xx or 5xx status) and \<open>resp.json()\<close>.
\<close>

definition fetch_json :: "reply \<Rightarrow> exn + json" where
  "fetch_json r =
     (case r of
        GetRaises e \<Rightarrow> Inl e
      | Reply status_code b \<Rightarrow>
          if 400 \<le> status_code \<and> status_code < 600 then Inl (RequestException ''HTTPError'')
          else (case b of BadJson e \<Rightarrow> Inl e | Json data \<Rightarrow> Inr data))"

text \<open>
  \<open>data["query"]["pages"]\<close> when both keys are there, nothing otherwise. These tests stand
  outside the \<open>try\<close> block, so an exception here ends the generator.
\<close>

definition pages_of :: "json \<Rightarrow> exn + json list" where
  "pages_of data =
     (case py_in ''query'' data of
        Inl e \<Rightarrow> Inl e
      | Inr False \<Rightarrow> Inr []
      | Inr True \<Rightarrow>
          (case py_item data ''query'' of
             Inl e \<Rightarrow> Inl e
           | Inr q \<Rightarrow>
               (case py_in ''pages'' q of
                  Inl e \<Rightarrow> Inl e
                | Inr False \<Rightarrow> Inr []
                | Inr True \<Rightarrow>
                    (case py_item q ''pages'' of
                       Inl e \<Rightarrow> Inl e
                     | Inr ps \<Rightarrow> py_iter ps))))"

text \<open>
  What a run of the generator leaves behind: the parameters of every request sent, the
  pages yielded, and the durations slept. The answer to a request is the world's reply at
  the number of requests sent before it.
\<close>

record crawl =
  requests :: "dict list"
  yielded :: "json list"
  naps :: "rat list"

definition crawl0 :: crawl where
  "crawl0 = \<lparr>requests = [], yielded = [], naps = []\<rparr>"

text \<open>
  One pass through the body of \<open>while True\<close>: it ends the generator (normally, or with an
  exception), or goes round again with a cursor and a state. An exception inside the
  \<open>try\<close> block is followed by a sleep of 1.5 seconds and the same cursor. A cursor that is
  not a dictionary makes the merge itself raise inside the \<open>try\<close> block, before any request
  is sent.
\<close>

definition iteration ::
  "(nat \<Rightarrow> reply) \<Rightarrow> dict \<Rightarrow> json \<Rightarrow> crawl \<Rightarrow> (exn option \<times> crawl) + (json \<times> crawl)" where
  "iteration w params cont st =
     (case cont of
        JObj kvs \<Rightarrow>
          (let st1 = st\<lparr>requests := requests st @ [merge params kvs]\<rparr> in
           case fetch_json (w (length (requests st))) of
             Inl e \<Rightarrow> Inr (cont, st1\<lparr>naps := naps st1 @ [3 / 2]\<rparr>)
           | Inr data \<Rightarrow>
               (case pages_of data of
                  Inl e \<Rightarrow> Inl (Some e, st1)
                | Inr ps \<Rightarrow>
                    (let st2 = st1\<lparr>yielded := yielded st1 @ ps\<rparr> in
                     case py_in ''continue'' data of
                       Inl e \<Rightarrow> Inl (Some e, st2)
                     | Inr False \<Rightarrow> Inl (None, st2)
                     | Inr True \<Rightarrow>
                         (case py_item data ''continue'' of
                            Inl e \<Rightarrow> Inl (Some e, st2)
                          | Inr c \<Rightarrow> Inr (c, st2\<lparr>naps := naps st2 @ [1 / 10]\<rparr>)))))
      | _ \<Rightarrow> Inr (cont, st\<lparr>naps := naps st @ [3 / 2]\<rparr>))"

text \<open>
  The loop has no bound on its passes: \<open>None\<close> is the run that never leaves it.
\<close>

partial_function (option) page_loop ::
  "(nat \<Rightarrow> reply) \<Rightarrow> dict \<Rightarrow> json \<Rightarrow> crawl \<Rightarrow> (exn option \<times> crawl) option" where
  "page_loop w params cont st =
     (case iteration w params cont st of
        Inl result \<Rightarrow> Some result
      | Inr (cont', st') \<Rightarrow> page_loop w params cont' st')"

declare page_loop.simps [code]

definition query_params :: "int \<Rightarrow> int \<Rightarrow> dict" where
  "query_params gaplimit namespace =
     [(''action'', JStr ''query''), (''format'', JStr ''json''), (''formatversion'', JStr ''2''),
      (''generator'', JStr ''allpages''), (''gaplimit'', JInt gaplimit), (''prop'', JStr ''info''),
      (''inprop'', JStr ''url''), (''gapnamespace'', JInt namespace)]"

definition page_generator :: "(nat \<Rightarrow> reply) \<Rightarrow> int \<Rightarrow> int \<Rightarrow> (exn option \<times> crawl) option" where
  "page_generator w gaplimit namespace =
     page_loop w (query_params gaplimit namespace) (JObj []) crawl0"

text \<open>
  For the statement of the claim: the cursor in force at the i-th request (the \<open>continue\<close>
  value of the last answer that had one), and whether a value is a dictionary.
\<close>

definition is_object :: "json \<Rightarrow> bool" where
  "is_object v = (case v of JObj kvs \<Rightarrow> True | _ \<Rightarrow> False)"

definition the_fields :: "json \<Rightarrow> dict" where
  "the_fields v = (case v of JObj kvs \<Rightarrow> kvs | _ \<Rightarrow> [])"

definition next_cursor :: "reply \<Rightarrow> json \<Rightarrow> json" where
  "next_cursor r cont =
     (case fetch_json r of
        Inl e \<Rightarrow> cont
      | Inr data \<Rightarrow> (case py_item data ''continue'' of Inl e \<Rightarrow> cont | Inr c \<Rightarrow> c))"

fun cursor :: "(nat \<Rightarrow> reply) \<Rightarrow> nat \<Rightarrow> json" where
  "cursor w 0 = JObj []"
| "cursor w (Suc i) = next_cursor (w i) (cursor w i)"

text \<open>
  A server with two batches: the first answer has two pages and a \<open>continue\<close> object, the
  second request times out, the third answer has no pages and no \<open>continue\<close>.
\<close>

definition two_batches :: "nat \<Rightarrow> reply" where
  "two_batches n =
     (if n = 0 then Reply 200 (Json (JObj [(''continue'', JObj [(''gapcontinue'', JStr ''B''), (''continue'', JStr ''gapcontinue||'')]),
                                            (''query'', JObj [(''pages'', JArr [JObj [(''pageid'', JInt 1)], JObj [(''pageid'', JInt 2)]])])]))
      else if n = 1 then GetRaises (RequestException ''Read timed out'')
      else Reply 200 (Json (JObj [(''batchcomplete'', JBool True)])))"

text \<open>
  For the statement of the claim. A reply lets the crawl carry on when the request
  failed (it is sent again) or when it is an answer with well-formed pages and a
  \<open>continue\<close> object; it is a last answer when it has well-formed pages and no \<open>continue\<close>.
  The pages of a reply are those of its answer, none for a failed request.
\<close>

definition carries_on :: "reply \<Rightarrow> bool" where
  "carries_on r =
     (case fetch_json r of
        Inl e \<Rightarrow> True
      | Inr data \<Rightarrow>
          (case pages_of data of Inl e \<Rightarrow> False | Inr ps \<Rightarrow> True)
          \<and> py_in ''continue'' data = Inr True
          \<and> (case py_item data ''continue'' of Inl e \<Rightarrow> False | Inr c \<Rightarrow> is_object c))"

definition last_answer :: "reply \<Rightarrow> bool" where
  "last_answer r =
     (case fetch_json r of
        Inl e \<Rightarrow> False
      | Inr data \<Rightarrow>
          (case pages_of data of Inl e \<Rightarrow> False | Inr ps \<Rightarrow> True)
          \<and> py_in ''continue'' data = Inr False)"

definition pages_at :: "reply \<Rightarrow> json list" where
  "pages_at r =
     (case fetch_json r of
        Inl e \<Rightarrow> []
      | Inr data \<Rightarrow> (case pages_of data of Inl e \<Rightarrow> [] | Inr ps \<Rightarrow> ps))"

text \<open>A server whose first answer has a string under \<open>continue\<close>, and whose second has none.\<close>

definition string_cursor :: "nat \<Rightarrow> reply" where
  "string_cursor n =
     (if n = 0 then Reply 200 (Json (JObj [(''continue'', JStr ''B'')]))
      else Reply 200 (Json (JObj [(''batchcomplete'', JBool True)])))"
section \<open>Banned keys and the bodies of the sections\<close>

text \<open>
  For the statement of the claims: a key is banned when it is a banned name or starts with
  a banned word; and the pairs of heading text and markup that the loop over the headers
  works on, in order.
\<close>

definition banned_key :: "string \<Rightarrow> bool" where
  "banned_key key = (key \<in> BANNED_SECTIONS \<or> (key \<noteq> [] \<and> hd (split_ws key) \<in> BANNED_SECTIONS))"

fun section_bodies :: "string \<Rightarrow> header list \<Rightarrow> (string \<times> string) list" where
  "section_bodies h_only [] = []"
| "section_bodies h_only (h # hs) =
     (h_title h,
      take ((case hs of [] \<Rightarrow> length h_only | h' # _ \<Rightarrow> h_start h') - h_end h) (drop (h_end h) h_only))
     # section_bodies h_only hs"

section \<open>Sample pages\<close>

definition raw_markup :: string where
  "raw_markup = ''<h2>Intro</h2><p>Hello</p><h2>Sources</h2><p>x</p><h2>History</h2><p>Old.</p>''"

definition sources_and_notes :: string where
  "sources_and_notes =
     ''<h2>Sources and Notes</h2><p>x</p><h2>History of the Chapter</h2><p>Old.</p>''"

text \<open>
  A page with a banned section in the middle, its heading in markup with a final \<open>[]\<close>,
  and one at the end, in capitals between spaces.
\<close>

definition mixed_page :: string where
  "mixed_page =
     ''<h2>Wars</h2><p>Old.</p><h2 id=s><b>Sources</b> and Notes[]</h2><p>x</p>''
     @ ''<h2>Legacy</h2>New.<h2> GALLERY </h2><p>g</p>''"

text \<open>
  The answers that the spec calls retryable: status 429, any 5xx status, or a decoded body
  whose error object has the code "maxlag" (the body is only decoded when the status is
  neither 429 nor 5xx).
\<close>

definition retryable :: "reply \<Rightarrow> bool" where
  "retryable r =
     (case r of
        GetRaises e \<Rightarrow> False
      | Reply status_code b \<Rightarrow>
          status_code = 429 \<or> (500 \<le> status_code \<and> status_code < 600)
          \<or> (case b of Json data \<Rightarrow> is_maxlag data = Inr True | BadJson e \<Rightarrow> False))"

text \<open>
  What an attempt of the client ends in. The exception raised inside the \<open>try\<close> block, if
  any: by \<open>session.get\<close>, by \<open>r.json()\<close>, or by \<open>.get\<close> on an \<open>error\<close> value that is not a
  dictionary. The data returned, if any: a decoded body, under a status other than 429
  and 5xx, that is not a maxlag report. An attempt is retried when the answer is
  retryable or an exception is raised; and the exception that ends the call after the
  last attempt is the one raised there when it is not a \<open>RequestException\<close>, and the
  \<open>RuntimeError\<close> after the loop otherwise.
\<close>

definition raised :: "reply \<Rightarrow> exn option" where
  "raised r =
     (case r of
        GetRaises e \<Rightarrow> Some e
      | Reply status_code b \<Rightarrow>
          if status_code = 429 \<or> (500 \<le> status_code \<and> status_code < 600) then None
          else (case b of
                  BadJson e \<Rightarrow> Some e
                | Json data \<Rightarrow> (case is_maxlag data of Inl e \<Rightarrow> Some e | Inr m \<Rightarrow> None)))"

definition returned :: "reply \<Rightarrow> json option" where
  "returned r =
     (case r of
        GetRaises e \<Rightarrow> None
      | Reply status_code b \<Rightarrow>
          if status_code = 429 \<or> (500 \<le> status_code \<and> status_code < 600) then None
          else (case b of
                  BadJson e \<Rightarrow> None
                | Json data \<Rightarrow> (if is_maxlag data = Inr False then Some data else None)))"

definition retried :: "reply \<Rightarrow> bool" where
  "retried r = (retryable r \<or> raised r \<noteq> None)"

definition final_error :: "reply \<Rightarrow> exn" where
  "final_error r =
     (case raised r of
        None \<Rightarrow> RuntimeError ''Max retries exceeded''
      | Some (RequestException m) \<Rightarrow> RuntimeError ''Max retries exceeded''
      | Some e \<Rightarrow> e)"

section \<open>Scripted servers\<close>

text \<open>
  Worlds for the examples: a server that answers 429 to every request, one that reports
  maxlag every time, one whose first request times out, one that answers 429 with a JSON
  body, one that reports an error other than maxlag, and one whose \<open>error\<close> value is a
  string.
\<close>

definition always_429 :: world where
  "always_429 = \<lparr>http = (\<lambda>n. Reply 429 (BadJson (OtherException ''ValueError''))),
                 uniform = (\<lambda>n. 0)\<rparr>"

definition always_maxlag :: world where
  "always_maxlag =
     \<lparr>http = (\<lambda>n. Reply 200 (Json (JObj [(''error'', JObj [(''code'', JStr ''maxlag'')])]))),
      uniform = (\<lambda>n. 0)\<rparr>"

definition timeout_then_ok :: world where
  "timeout_then_ok =
     \<lparr>http = (\<lambda>n. if n = 0 then GetRaises (RequestException ''Read timed out'')
                   else Reply 200 (Json (JObj [(''parse'', JObj [(''text'', JStr ''<p>x</p>'')])]))),
      uniform = (\<lambda>n. 0)\<rparr>"

definition rate_limited_json :: world where
  "rate_limited_json = \<lparr>http = (\<lambda>n. Reply 429 (Json (JObj []))), uniform = (\<lambda>n. 0)\<rparr>"

definition missing_title :: world where
  "missing_title =
     \<lparr>http = (\<lambda>n. Reply 200 (Json (JObj [(''error'', JObj [(''code'', JStr ''nosuchpageid'')])]))),
      uniform = (\<lambda>n. 0)\<rparr>"


definition error_text :: world where
  "error_text = \<lparr>http = (\<lambda>n. Reply 200 (Json (JObj [(''error'', JStr ''x'')]))), uniform = (\<lambda>n. 0)\<rparr>"

section \<open>Backoff durations\<close>

lemmas fetch_defs =
  fetch_with_backoff_def MAX_RETRIES_def INITIAL_BACKOFF_def attempt_once_def on_exception_def
  is_maxlag_def sleep_def io0_def upt_rec

text \<open>
  C1. Six consecutive 429 answers: the durations slept are 2, 4, 8, 16, 32 and then 64,
  since the status branch doubles the backoff without the cap; the maxlag branch, which
  takes the minimum with 60, sleeps 2, 4, 8, 16, 32, 60 (plus the jitter, 0 here).
\<close>

theorem backoff_429_uncapped:
  "fetch_with_backoff always_429 io0 =
     (Inl (RuntimeError ''Max retries exceeded''),
      \<lparr>sent = 6, drawn = 0, slept = [2, 4, 8, 16, 32, 64]\<rparr>)
   \<and> fetch_with_backoff always_maxlag io0 =
     (Inl (RuntimeError ''Max retries exceeded''),
      \<lparr>sent = 6, drawn = 6, slept = [2, 4, 8, 16, 32, 60]\<rparr>)"
  by (simp add: fetch_defs always_429_def always_maxlag_def)

section \<open>Which answers are retried\<close>

lemma retried_or_returned: "retried r = (returned r = None)"
  by (auto simp: retried_def returned_def retryable_def raised_def
      split: reply.splits body.splits sum.splits bool.splits)

lemma step_retried:
  assumes "retried (http w (sent st))" and "attempt \<noteq> MAX_RETRIES"
  shows "\<exists>b' st'. attempt_once w attempt b st = (Continue b', st')
           \<and> sent st' = sent st + 1 \<and> length (slept st') = length (slept st) + 1"
  using assms
  by (auto simp: retried_def retryable_def raised_def attempt_once_def on_exception_def sleep_def Let_def
      split: reply.splits body.splits sum.splits bool.splits exn.splits if_splits)

lemma step_last:
  assumes "retried (http w (sent st))"
  shows "\<exists>st'. fetch_loop w [MAX_RETRIES] b st = (Inl (final_error (http w (sent st))), st')
           \<and> sent st' = sent st + 1 \<and> length (slept st') = length (slept st) + 1"
  using assms
  by (auto simp: retried_def retryable_def raised_def final_error_def attempt_once_def
        on_exception_def sleep_def Let_def
      split: reply.splits body.splits sum.splits bool.splits exn.splits if_splits)

lemma step_returned:
  assumes "returned (http w (sent st)) = Some data"
  shows "attempt_once w attempt b st = (Return data, st\<lparr>sent := sent st + 1\<rparr>)"
  using assms
  by (auto simp: returned_def attempt_once_def Let_def
      split: reply.splits body.splits sum.splits bool.splits if_splits)

lemma loop_prefix:
  "(\<forall>i<j. retried (http w (sent st + i))) \<Longrightarrow> j \<le> length as \<Longrightarrow> MAX_RETRIES \<notin> set (take j as) \<Longrightarrow>
   \<exists>b' st'. fetch_loop w as b st = fetch_loop w (drop j as) b' st'
      \<and> sent st' = sent st + j \<and> length (slept st') = length (slept st) + j"
proof (induction j arbitrary: as b st)
  case 0
  then show ?case by auto
next
  case (Suc j)
  then obtain a as' where as: "as = a # as'" by (cases as) auto
  with Suc.prems have a: "a \<noteq> MAX_RETRIES" by auto
  have "retried (http w (sent st))" using Suc.prems(1) by (metis add.right_neutral zero_less_Suc)
  from step_retried[OF this a, of b] obtain b1 st1 where
    s: "attempt_once w a b st = (Continue b1, st1)" "sent st1 = sent st + 1"
       "length (slept st1) = length (slept st) + 1" by blast
  have r: "\<forall>i<j. retried (http w (sent st1 + i))"
    using Suc.prems(1) s(2) by (metis Suc_eq_plus1 Suc_less_eq add_Suc_shift)
  have l: "j \<le> length as'" using Suc.prems(2) as by simp
  have m: "MAX_RETRIES \<notin> set (take j as')" using Suc.prems(3) as by simp
  from Suc.IH[OF r l m, of b1] obtain b' st' where
    "fetch_loop w as' b1 st1 = fetch_loop w (drop j as') b' st'"
    "sent st' = sent st1 + j" "length (slept st') = length (slept st1) + j" by blast
  with s as show ?case by auto
qed

lemma attempts: "[1 ..< MAX_RETRIES + 1] = [1, 2, 3, 4, 5, MAX_RETRIES]"
  by (simp add: MAX_RETRIES_def upt_rec)

text \<open>
  C2, as the code has it. Every answer is either returned or retried: it is retried when
  the status is 429 or 5xx, when the decoded body reports maxlag, and when an exception
  is raised (by the request, by the decoding, or by an \<open>error\<close> value that is not an
  object); it is returned when it is a decoded body with none of these, an error object
  with another code included. The client of fetch\_warhammer\_pages\_for\_lightrag.py,
  after j retried answers and then a returned one (j below \<open>MAX_RETRIES\<close>), returns that
  data after j + 1 requests and j sleeps; after \<open>MAX_RETRIES\<close> retried answers it raises,
  after as many requests and sleeps: the exception of the last attempt when that is not
  a \<open>RequestException\<close>, and otherwise the \<open>RuntimeError\<close> that follows the loop. The client
  of the v3 script sends one request and returns its decoded body whatever the status,
  or raises the \<open>RuntimeError\<close> that wraps the first exception; it never sleeps.
\<close>

theorem fetch_retry_policy:
  "retried r = (returned r = None)
   \<and> (\<forall>j<MAX_RETRIES. \<forall>data.
        (\<forall>i<j. retried (http w (sent st + i))) \<and> returned (http w (sent st + j)) = Some data \<longrightarrow>
        fst (fetch_with_backoff w st) = Inr data
        \<and> sent (snd (fetch_with_backoff w st)) = sent st + j + 1
        \<and> length (slept (snd (fetch_with_backoff w st))) = length (slept st) + j)
   \<and> ((\<forall>i<MAX_RETRIES. retried (http w (sent st + i))) \<longrightarrow>
        fst (fetch_with_backoff w st) = Inl (final_error (http w (sent st + (MAX_RETRIES - 1))))
        \<and> sent (snd (fetch_with_backoff w st)) = sent st + MAX_RETRIES
        \<and> length (slept (snd (fetch_with_backoff w st))) = length (slept st) + MAX_RETRIES)
   \<and> fetch_with_backoff_v3 format_exc w st =
        (case http w (sent st) of
           GetRaises e \<Rightarrow> Inl (wrap_v3 format_exc 1 e)
         | Reply status_code (BadJson e) \<Rightarrow> Inl (wrap_v3 format_exc 1 e)
         | Reply status_code (Json data) \<Rightarrow> Inr data,
         st\<lparr>sent := sent st + 1\<rparr>)"
proof -
  have b: "fst (fetch_with_backoff w st) = Inr data
        \<and> sent (snd (fetch_with_backoff w st)) = sent st + j + 1
        \<and> length (slept (snd (fetch_with_backoff w st))) = length (slept st) + j"
    if j: "j < MAX_RETRIES" and r: "\<forall>i<j. retried (http w (sent st + i))"
      and d: "returned (http w (sent st + j)) = Some data" for j data
  proof -
    have l: "j \<le> length [1, 2, 3, 4, 5, MAX_RETRIES]" using j by (simp add: MAX_RETRIES_def)
    have m: "MAX_RETRIES \<notin> set (take j [1, 2, 3, 4, 5, MAX_RETRIES])"
      using j by (auto simp: MAX_RETRIES_def take_Cons' dest: in_set_takeD split: if_splits)
    from loop_prefix[OF r l m, of INITIAL_BACKOFF] obtain b' st' where
      p: "fetch_loop w [1, 2, 3, 4, 5, MAX_RETRIES] INITIAL_BACKOFF st
            = fetch_loop w (drop j [1, 2, 3, 4, 5, MAX_RETRIES]) b' st'"
         "sent st' = sent st + j" "length (slept st') = length (slept st) + j" by blast
    from j obtain a rest where dr: "drop j [1, 2, 3, 4, 5, MAX_RETRIES] = a # rest"
      by (cases "drop j [1, 2, 3, 4, 5, MAX_RETRIES]") (auto simp: MAX_RETRIES_def)
    have "returned (http w (sent st')) = Some data" using d p(2) by simp
    from step_returned[OF this, of a b']
    have "fetch_loop w (a # rest) b' st' = (Inr data, st'\<lparr>sent := sent st' + 1\<rparr>)" by simp
    moreover have "fetch_with_backoff w st = fetch_loop w (a # rest) b' st'"
      unfolding fetch_with_backoff_def attempts p(1) dr ..
    ultimately show ?thesis using p(2,3) by simp
  qed
  have c: "fst (fetch_with_backoff w st) = Inl (final_error (http w (sent st + (MAX_RETRIES - 1))))
        \<and> sent (snd (fetch_with_backoff w st)) = sent st + MAX_RETRIES
        \<and> length (slept (snd (fetch_with_backoff w st))) = length (slept st) + MAX_RETRIES"
    if r: "\<forall>i<MAX_RETRIES. retried (http w (sent st + i))"
  proof -
    have r5: "\<forall>i<5. retried (http w (sent st + i))" using r by (simp add: MAX_RETRIES_def)
    have m: "MAX_RETRIES \<notin> set (take 5 [1, 2, 3, 4, 5, MAX_RETRIES])" by (simp add: MAX_RETRIES_def)
    from loop_prefix[OF r5 _ m, of INITIAL_BACKOFF] obtain b' st' where
      p: "fetch_loop w [1, 2, 3, 4, 5, MAX_RETRIES] INITIAL_BACKOFF st
            = fetch_loop w (drop 5 [1, 2, 3, 4, 5, MAX_RETRIES]) b' st'"
         "sent st' = sent st + 5" "length (slept st') = length (slept st) + 5" by auto
    have "retried (http w (sent st'))" using r p(2) by (simp add: MAX_RETRIES_def)
    from step_last[OF this, of b'] obtain st2 where
      q: "fetch_loop w [MAX_RETRIES] b' st' = (Inl (final_error (http w (sent st'))), st2)"
         "sent st2 = sent st' + 1" "length (slept st2) = length (slept st') + 1" by blast
    have "drop 5 [1, 2, 3, 4, 5, MAX_RETRIES] = [MAX_RETRIES]" by simp
    then have "fetch_with_backoff w st = fetch_loop w [MAX_RETRIES] b' st'"
      unfolding fetch_with_backoff_def attempts p(1) by (simp only:)
    with q p(2,3) show ?thesis by (simp add: MAX_RETRIES_def)
  qed
  have v3: "fetch_with_backoff_v3 format_exc w st =
        (case http w (sent st) of
           GetRaises e \<Rightarrow> Inl (wrap_v3 format_exc 1 e)
         | Reply status_code (BadJson e) \<Rightarrow> Inl (wrap_v3 format_exc 1 e)
         | Reply status_code (Json data) \<Rightarrow> Inr data,
         st\<lparr>sent := sent st + 1\<rparr>)"
    by (simp add: fetch_with_backoff_v3_def MAX_RETRIES_def upt_rec Let_def
        split: reply.splits body.splits)
  from retried_or_returned b c v3 show ?thesis by blast
qed
text \<open>
  C2 as the spec states it fails twice: the v3 client returns the body of a 429 answer
  without retrying, and the other client retries after a timeout, which is none of the
  three named answers.
\<close>

theorem fetch_retry_claim_counterexample:
  "fetch_with_backoff_v3 (\<lambda>e. []) rate_limited_json io0 =
     (Inr (JObj []), \<lparr>sent = 1, drawn = 0, slept = []\<rparr>)
   \<and> fetch_with_backoff timeout_then_ok io0 =
     (Inr (JObj [(''parse'', JObj [(''text'', JStr ''<p>x</p>'')])]),
      \<lparr>sent = 2, drawn = 0, slept = [2]\<rparr>)"
  by (simp add: fetch_defs fetch_with_backoff_v3_def rate_limited_json_def timeout_then_ok_def)

text \<open>
  The policy at four scripted servers: a timeout followed by a good answer, an error
  other than maxlag, maxlag every time, and an \<open>error\<close> value that is a string.
\<close>

theorem fetch_retry_policy_witness:
  "retried (http timeout_then_ok 0)
   \<and> returned (http timeout_then_ok 1) = Some (JObj [(''parse'', JObj [(''text'', JStr ''<p>x</p>'')])])
   \<and> fst (fetch_with_backoff timeout_then_ok io0)
       = Inr (JObj [(''parse'', JObj [(''text'', JStr ''<p>x</p>'')])])
   \<and> sent (snd (fetch_with_backoff timeout_then_ok io0)) = 2
   \<and> length (slept (snd (fetch_with_backoff timeout_then_ok io0))) = 1
   \<and> returned (http missing_title 0) = Some (JObj [(''error'', JObj [(''code'', JStr ''nosuchpageid'')])])
   \<and> fst (fetch_with_backoff missing_title io0)
       = Inr (JObj [(''error'', JObj [(''code'', JStr ''nosuchpageid'')])])
   \<and> sent (snd (fetch_with_backoff missing_title io0)) = 1
   \<and> slept (snd (fetch_with_backoff missing_title io0)) = []
   \<and> list_all (\<lambda>i. retried (http always_maxlag i)) [0 ..< MAX_RETRIES]
   \<and> fst (fetch_with_backoff always_maxlag io0) = Inl (RuntimeError ''Max retries exceeded'')
   \<and> list_all (\<lambda>i. retried (http error_text i)) [0 ..< MAX_RETRIES]
   \<and> fst (fetch_with_backoff error_text io0) = Inl (OtherException ''AttributeError'')
   \<and> sent (snd (fetch_with_backoff error_text io0)) = 6
   \<and> length (slept (snd (fetch_with_backoff error_text io0))) = 6"
proof -
  have t0: "retried (http timeout_then_ok 0)"
    by (simp add: retried_def raised_def timeout_then_ok_def)
  have t1: "returned (http timeout_then_ok 1) = Some (JObj [(''parse'', JObj [(''text'', JStr ''<p>x</p>'')])])"
    by (simp add: returned_def timeout_then_ok_def is_maxlag_def)
  have m0: "returned (http missing_title 0) = Some (JObj [(''error'', JObj [(''code'', JStr ''nosuchpageid'')])])"
    by (simp add: returned_def missing_title_def is_maxlag_def)
  have l: "\<forall>i<MAX_RETRIES. retried (http always_maxlag (sent io0 + i))"
    by (simp add: retried_def retryable_def always_maxlag_def is_maxlag_def)
  have fl: "final_error (http always_maxlag (sent io0 + (MAX_RETRIES - 1))) = RuntimeError ''Max retries exceeded''"
    by (simp add: final_error_def raised_def always_maxlag_def is_maxlag_def)
  have x: "\<forall>i<MAX_RETRIES. retried (http error_text (sent io0 + i))"
    by (simp add: retried_def raised_def error_text_def is_maxlag_def)
  have fx: "final_error (http error_text (sent io0 + (MAX_RETRIES - 1))) = OtherException ''AttributeError''"
    by (simp add: final_error_def raised_def error_text_def is_maxlag_def)
  have one: "(1::nat) < MAX_RETRIES" "(0::nat) < MAX_RETRIES" by (simp_all add: MAX_RETRIES_def)
  have A: "fst (fetch_with_backoff timeout_then_ok io0)
             = Inr (JObj [(''parse'', JObj [(''text'', JStr ''<p>x</p>'')])])
           \<and> sent (snd (fetch_with_backoff timeout_then_ok io0)) = sent io0 + 1 + 1
           \<and> length (slept (snd (fetch_with_backoff timeout_then_ok io0))) = length (slept io0) + 1"
    using fetch_retry_policy[of _ timeout_then_ok io0] one(1) t0 t1
    by (auto simp: io0_def)
  have B: "fst (fetch_with_backoff missing_title io0)
             = Inr (JObj [(''error'', JObj [(''code'', JStr ''nosuchpageid'')])])
           \<and> sent (snd (fetch_with_backoff missing_title io0)) = sent io0 + 0 + 1
           \<and> length (slept (snd (fetch_with_backoff missing_title io0))) = length (slept io0) + 0"
    using fetch_retry_policy[of _ missing_title io0] one(2) m0
    by (auto simp: io0_def)
  have C: "fst (fetch_with_backoff always_maxlag io0) = Inl (RuntimeError ''Max retries exceeded'')"
    using fetch_retry_policy[of _ always_maxlag io0] l fl by metis
  have D: "fst (fetch_with_backoff error_text io0) = Inl (OtherException ''AttributeError'')
           \<and> sent (snd (fetch_with_backoff error_text io0)) = sent io0 + MAX_RETRIES
           \<and> length (slept (snd (fetch_with_backoff error_text io0))) = length (slept io0) + MAX_RETRIES"
    using fetch_retry_policy[of _ error_text io0] x fx by metis
  from A B C D t0 t1 m0 l x show ?thesis
    by (simp add: MAX_RETRIES_def io0_def list_all_iff)
qed

section \<open>The end-to-end example\<close>

text \<open>
  C3. The banned set holds "sources". On the sample markup the cleaner returns the Intro
  body without a heading, drops the Sources section, and keeps History under a level-2
  marker; \<open>write_doc\<close> writes that text after the front matter, followed by one line feed.
\<close>

theorem end_to_end_example:
  "''sources'' \<in> BANNED_SECTIONS
   \<and> clean_pagecontent [(''text'', JStr raw_markup)]
       = ''Hello\<newline>\<newline>## History\<newline>\<newline>Old.''
   \<and> snd (fst (write_doc nfkd combining out_dir
         \<lparr>title = ''Page'', fullurl = ''u'', categories = [],
          pagecontent = clean_pagecontent [(''text'', JStr raw_markup)]\<rparr> taken))
       = ''---\<newline>title: '' @ [CHR 0x22] @ ''Page'' @ [CHR 0x22] @ ''\<newline>categories:\<newline>---\<newline>\<newline>''
         @ ''Hello\<newline>\<newline>## History\<newline>\<newline>Old.\<newline>''"
proof -
  have c: "clean_pagecontent [(''text'', JStr raw_markup)]
       = ''Hello\<newline>\<newline>## History\<newline>\<newline>Old.''"
    unfolding raw_markup_def by code_simp
  have b: "''sources'' \<in> BANNED_SECTIONS" by (simp add: BANNED_SECTIONS_def)
  have w: "snd (fst (write_doc nfkd combining out_dir
         \<lparr>title = ''Page'', fullurl = ''u'', categories = [], pagecontent = body\<rparr> taken))
       = ''---\<newline>title: '' @ [CHR 0x22] @ ''Page'' @ [CHR 0x22] @ ''\<newline>categories:\<newline>---\<newline>\<newline>''
         @ body @ ''\<newline>''" for body
    by (simp add: write_doc_def safe_filename_def Let_def newline_def)
  show ?thesis unfolding w c using b by simp
qed

section \<open>Banned sections\<close>

lemma strip_tags_plain: "CHR ''<'' \<notin> set s \<Longrightarrow> strip_tags (s @ rest) = s @ strip_tags rest"
  by (induction s) auto

lemma strip_tags_tag:
  assumes "a \<noteq> []" and "CHR ''>'' \<notin> set a"
  shows "strip_tags (CHR ''<'' # a @ CHR ''>'' # rest) = strip_tags rest"
proof -
  have t: "takeWhile (\<lambda>d. d \<noteq> CHR ''>'') (a @ CHR ''>'' # rest) = a"
    using assms(2) by (induction a) auto
  have d: "dropWhile (\<lambda>d. d \<noteq> CHR ''>'') (a @ CHR ''>'' # rest) = CHR ''>'' # rest"
    using assms(2) by (induction a) auto
  show ?thesis using assms(1) t d by (simp add: after_gt_def)
qed

lemma drop_final_brackets_append: "drop_final_brackets (t @ ''[]'') = t"
  by (simp add: drop_final_brackets_def Let_def)

lemma heading_title_wrapped:
  assumes "a \<noteq> []" and "CHR ''>'' \<notin> set a" and "CHR ''<'' \<notin> set t"
  shows "heading_title (CHR ''<'' # a @ CHR ''>'' # t @ ''</'' @ a @ ''>[]'') = strip t"
proof -
  have c: "strip_tags (''</'' @ a @ ''>[]'') = ''[]''"
    using strip_tags_tag[of "CHR ''/'' # a" "''[]''"] assms(2) by simp
  have "strip_tags (CHR ''<'' # a @ CHR ''>'' # t @ ''</'' @ a @ ''>[]'')
          = strip_tags (t @ ''</'' @ a @ ''>[]'')"
    using strip_tags_tag[OF assms(1,2)] by simp
  also have "\<dots> = t @ ''[]''"
    using strip_tags_plain[OF assms(3), of "''</'' @ a @ ''>[]''"] c by simp
  finally show ?thesis
    by (simp add: heading_title_def drop_final_brackets_append del: strip_tags.simps)
qed

lemma banned_dropped:
  assumes "banned_key (lower (heading_title title_html))"
  shows "section_part title_html body_html = None"
  using assms by (auto simp: section_part_def banned_key_def Let_def)

lemma collect_parts_bodies:
  "collect_parts h_only hs = List.map_filter (\<lambda>(t, b). section_part t b) (section_bodies h_only hs)"
  by (induction hs) (auto simp: List.map_filter_simps Let_def split: option.splits)

lemma map_filter_skip:
  "(\<And>x. x \<in> set xs \<Longrightarrow> \<not> P x \<Longrightarrow> f x = None) \<Longrightarrow>
   List.map_filter f (filter P xs) = List.map_filter f xs"
  by (induction xs) (auto simp: List.map_filter_simps split: option.splits)

text \<open>
  C4. The banned set is the fixed one. A section whose key (the cleaned title in lower
  case) is a banned name, or starts with a banned word, contributes nothing. The cleaning
  takes the tags and a final \<open>[]\<close> off the heading and trims it: a text without \<open><\<close> inside a
  pair of tags and followed by \<open>[]\<close> has the trimmed text as its title, and is dropped when
  that text in lower case is banned. Wherever the banned sections stand among the
  headers, the parts are those of the other sections. "Sources and Notes" is dropped
  through its first word, also in markup; "History of the Chapter", with a body, is kept
  under its heading.
\<close>

theorem banned_sections_dropped:
  "BANNED_SECTIONS = {''contents'', ''videos'', ''sources'', ''gallery'', ''bibliography''}
   \<and> (banned_key (lower (heading_title title_html)) \<longrightarrow> section_part title_html body_html = None)
   \<and> (a \<noteq> [] \<and> CHR ''>'' \<notin> set a \<and> CHR ''<'' \<notin> set t \<longrightarrow>
        heading_title (CHR ''<'' # a @ CHR ''>'' # t @ ''</'' @ a @ ''>[]'') = strip t
        \<and> (banned_key (lower (strip t)) \<longrightarrow>
             section_part (CHR ''<'' # a @ CHR ''>'' # t @ ''</'' @ a @ ''>[]'') body_html = None))
   \<and> collect_parts h_only hs
       = List.map_filter (\<lambda>(t, b). section_part t b)
           (filter (\<lambda>(t, b). \<not> banned_key (lower (heading_title t))) (section_bodies h_only hs))
   \<and> section_part ''<b>Sources</b> and Notes[]'' ''<p>x</p>'' = None
   \<and> section_part '' GALLERY '' ''<p>g</p>'' = None
   \<and> section_part ''History of the Chapter'' ''<p>Old.</p>''
       = Some ''## History of the Chapter\<newline>\<newline>Old.''
   \<and> clean_pagecontent [(''text'', JStr sources_and_notes)]
       = ''## History of the Chapter\<newline>\<newline>Old.''
   \<and> clean_pagecontent [(''text'', JStr mixed_page)]
       = ''## Wars\<newline>\<newline>Old.\<newline>\<newline>## Legacy\<newline>\<newline>New.''"
proof -
  have s: "BANNED_SECTIONS = {''contents'', ''videos'', ''sources'', ''gallery'', ''bibliography''}"
    by (simp add: BANNED_SECTIONS_def)
  have w: "heading_title (CHR ''<'' # a @ CHR ''>'' # t @ ''</'' @ a @ ''>[]'') = strip t
        \<and> (banned_key (lower (strip t)) \<longrightarrow>
             section_part (CHR ''<'' # a @ CHR ''>'' # t @ ''</'' @ a @ ''>[]'') body_html = None)"
    if "a \<noteq> [] \<and> CHR ''>'' \<notin> set a \<and> CHR ''<'' \<notin> set t"
    using that heading_title_wrapped[of a t] banned_dropped by metis
  have c: "collect_parts h_only hs
       = List.map_filter (\<lambda>(t, b). section_part t b)
           (filter (\<lambda>(t, b). \<not> banned_key (lower (heading_title t))) (section_bodies h_only hs))"
    unfolding collect_parts_bodies
    by (rule map_filter_skip[symmetric]) (auto simp: banned_dropped)
  have e1: "section_part ''<b>Sources</b> and Notes[]'' ''<p>x</p>'' = None" by code_simp
  have e2: "section_part '' GALLERY '' ''<p>g</p>'' = None" by code_simp
  have e3: "section_part ''History of the Chapter'' ''<p>Old.</p>''
       = Some ''## History of the Chapter\<newline>\<newline>Old.''" by code_simp
  have e4: "clean_pagecontent [(''text'', JStr sources_and_notes)]
       = ''## History of the Chapter\<newline>\<newline>Old.''"
    unfolding sources_and_notes_def by code_simp
  have e5: "clean_pagecontent [(''text'', JStr mixed_page)]
       = ''## Wars\<newline>\<newline>Old.\<newline>\<newline>## Legacy\<newline>\<newline>New.''"
    unfolding mixed_page_def by code_simp
  from s banned_dropped w c e1 e2 e3 e4 e5 show ?thesis by blast
qed

text \<open>
  The heading \<open><span> Sources and Notes </span>[]\<close>: its key is not a banned name, its first
  word is.
\<close>

theorem banned_sections_dropped_witness:
  "heading_title ''<span> Sources and Notes </span>[]'' = ''Sources and Notes''
   \<and> lower ''Sources and Notes'' = ''sources and notes''
   \<and> hd (split_ws ''sources and notes'') = ''sources''
   \<and> ''sources and notes'' \<notin> BANNED_SECTIONS
   \<and> banned_key ''sources and notes''
   \<and> section_part ''<span> Sources and Notes </span>[]'' ''<p>x</p>'' = None"
proof -
  have p: "''span'' \<noteq> [] \<and> CHR ''>'' \<notin> set ''span'' \<and> CHR ''<'' \<notin> set '' Sources and Notes ''"
    by simp
  have st: "strip '' Sources and Notes '' = ''Sources and Notes''" by code_simp
  have k: "lower ''Sources and Notes'' = ''sources and notes''" by code_simp
  have f: "hd (split_ws ''sources and notes'') = ''sources''" by code_simp
  have n: "''sources and notes'' \<notin> BANNED_SECTIONS" by (simp add: BANNED_SECTIONS_def)
  have b: "banned_key ''sources and notes''" using f by (simp add: banned_key_def BANNED_SECTIONS_def)
  from banned_sections_dropped[of _ _ "''span''" "'' Sources and Notes ''" "''<p>x</p>''"] p st k b
  have "heading_title ''<span> Sources and Notes </span>[]'' = ''Sources and Notes''
        \<and> section_part ''<span> Sources and Notes </span>[]'' ''<p>x</p>'' = None"
    by simp
  with k f n b show ?thesis by simp
qed
section \<open>Category normalisation\<close>









section \<open>File names are unique\<close>

lemma next_free_fresh: "next_free base taken candidate idx |\<notin>| taken"
  by (induction base taken candidate idx rule: next_free.induct) (subst next_free.simps, simp)

lemma next_free_shape:
  "next_free base taken candidate idx = candidate \<and> candidate |\<notin>| taken
   \<or> (\<exists>k>idx. next_free base taken candidate idx = numbered base k) \<and> candidate |\<in>| taken"
proof (induction base taken candidate idx rule: next_free.induct)
  case (1 base taken candidate idx)
  show ?case
  proof (cases "candidate |\<in>| taken")
    case True
    have "next_free base taken candidate idx = next_free base taken (numbered base (idx + 1)) (idx + 1)"
      using True by (subst next_free.simps) (simp add: numbered_def)
    moreover from "1.IH"[OF True]
    have "\<exists>k>idx. next_free base taken (numbered base (idx + 1)) (idx + 1) = numbered base k"
      by (fold numbered_def) (metis Suc_eq_plus1 Suc_lessD lessI)
    ultimately show ?thesis using True by simp
  next
    case False
    then show ?thesis by (subst next_free.simps) simp
  qed
qed

text \<open>
  C6. With an empty set of used names the result is the plain base name of the title, a
  function of the title alone. For any set, the name chosen is not in the set and the set
  returned is the old one with that name added; a second call with the same title then
  returns a different file name, the base name followed by an underscore and a number
  that is at least 2.
\<close>

theorem safe_filename_unique:
  "safe_filename nfkd combining ttl {||} ext =
     (slug nfkd combining ttl @ ext, {|slug nfkd combining ttl|})
   \<and> (\<exists>c. safe_filename nfkd combining ttl taken ext = (c @ ext, finsert c taken) \<and> c |\<notin>| taken)
   \<and> (\<exists>c k. safe_filename nfkd combining ttl taken ext = (c @ ext, finsert c taken)
        \<and> 2 \<le> k
        \<and> fst (safe_filename nfkd combining ttl (finsert c taken) ext)
            = slug nfkd combining ttl @ ''_'' @ str_nat k @ ext
        \<and> fst (safe_filename nfkd combining ttl (finsert c taken) ext) \<noteq> c @ ext)"
proof -
  let ?b = "slug nfkd combining ttl"
  let ?c = "next_free ?b taken ?b 1"
  let ?t = "finsert ?c taken"
  let ?d = "next_free ?b ?t ?b 1"
  have e: "safe_filename nfkd combining ttl {||} ext = (?b @ ext, {|?b|})"
    by (simp add: safe_filename_def Let_def next_free.simps)
  have f1: "safe_filename nfkd combining ttl taken ext = (?c @ ext, ?t)"
    by (simp add: safe_filename_def Let_def)
  have fresh1: "?c |\<notin>| taken" by (rule next_free_fresh)
  have f2: "fst (safe_filename nfkd combining ttl ?t ext) = ?d @ ext"
    by (simp add: safe_filename_def Let_def)
  have fresh2: "?d |\<notin>| ?t" by (rule next_free_fresh)
  then have ne: "?d \<noteq> ?c" by (metis finsertI1)
  have "?b |\<in>| ?t"
    using next_free_shape[of ?b taken ?b 1] by (metis finsertI1 finsertI2)
  then obtain k where k: "k > 1" "?d = numbered ?b k"
    using next_free_shape[of ?b ?t ?b 1] by blast
  have g: "fst (safe_filename nfkd combining ttl ?t ext) = ?b @ ''_'' @ str_nat k @ ext"
    using f2 k(2) by (simp add: numbered_def)
  have h: "fst (safe_filename nfkd combining ttl ?t ext) \<noteq> ?c @ ext"
    using f2 ne by simp
  have two: "2 \<le> k" using k(1) by simp
  show ?thesis
    using e f1 fresh1 g h two by blast
qed

section \<open>Failures are recorded and the crawl goes on\<close>

lemma length_page_outcomes: "length (page_outcomes fetch cw w st ps) = length ps"
  by (induction ps arbitrary: st) (auto simp: Let_def split: prod.splits)

lemma main_loop_fail_rows:
  "map identity_and_error (fail_rows (main_loop fetch tb cw w n idx ps r))
     = map identity_and_error (fail_rows r) @ failed_pages (zip ps (page_outcomes fetch cw w (run_io r) ps))"
proof (induction ps arbitrary: idx r)
  case Nil
  then show ?case by simp
next
  case (Cons p ps)
  obtain fetched st where f: "fetch w (run_io r) = (fetched, st)" by (cases "fetch w (run_io r)")
  show ?case
  proof (cases "case fetched of Inl e \<Rightarrow> Inl e | Inr data \<Rightarrow> parse_branch cw p data")
    case (Inl e)
    with f Cons.IH show ?thesis by (simp add: identity_and_error_def)
  next
    case (Inr out_path)
    with f Cons.IH show ?thesis by simp
  qed
qed

lemma main_loop_stdout:
  "length (stdout (main_loop fetch tb cw w n idx ps r)) = length (stdout r) + length ps"
proof (induction ps arbitrary: idx r)
  case Nil
  then show ?case by simp
next
  case (Cons p ps)
  obtain fetched st where f: "fetch w (run_io r) = (fetched, st)" by (cases "fetch w (run_io r)")
  show ?case
  proof (cases "case fetched of Inl e \<Rightarrow> Inl e | Inr data \<Rightarrow> parse_branch cw p data")
    case (Inl e)
    with f Cons.IH show ?thesis by simp
  next
    case (Inr out_path)
    with f Cons.IH show ?thesis by simp
  qed
qed

lemma crawl_report:
  "length (page_outcomes fetch cw w io0 df) = length df
   \<and> map identity_and_error (fail_rows (fst (crawl fetch tb cw w df)))
       = failed_pages (zip df (page_outcomes fetch cw w io0 df))
   \<and> snd (crawl fetch tb cw w df)
       = (if fail_rows (fst (crawl fetch tb cw w df)) = [] then None
          else Some (fail_rows (fst (crawl fetch tb cw w df))))
   \<and> length (stdout (fst (crawl fetch tb cw w df)))
       = length df + (if snd (crawl fetch tb cw w df) = None then 0 else 1)"
proof -
  define r where "r = main_loop fetch tb cw w (length df) 0 df \<lparr>run_io = io0, stdout = [], fail_rows = []\<rparr>"
  have a: "map identity_and_error (fail_rows r) = failed_pages (zip df (page_outcomes fetch cw w io0 df))"
    unfolding r_def
    using main_loop_fail_rows[of fetch tb cw w "length df" 0 df "\<lparr>run_io = io0, stdout = [], fail_rows = []\<rparr>"]
    by simp
  have b: "length (stdout r) = length df"
    unfolding r_def
    using main_loop_stdout[of fetch tb cw w "length df" 0 df "\<lparr>run_io = io0, stdout = [], fail_rows = []\<rparr>"]
    by simp
  have c: "crawl fetch tb cw w df
      = (if fail_rows r \<noteq> []
         then (r\<lparr>stdout := stdout r @ [''Wrote failures to '' @ FAIL_LOG]\<rparr>, Some (fail_rows r))
         else (r, None))"
    by (simp add: crawl_def r_def Let_def)
  show ?thesis
  proof (cases "fail_rows r = []")
    case True
    with a b c show ?thesis by (simp add: length_page_outcomes)
  next
    case False
    with a b c show ?thesis by (simp add: length_page_outcomes)
  qed
qed

text \<open>
  C7. In both scripts every page of the table ends in an outcome, whatever happened to
  the pages before it; the failure list holds, in order, one record for each page whose
  \<open>try\<close> block raised, with its identifier, title, URL and the text of the exception; the
  list is written once after the loop, when it is not empty; and one line is printed per
  page, plus one for the report.
\<close>

theorem failures_recorded:
  "length (page_outcomes fetch_with_backoff cw w io0 df) = length df
   \<and> map identity_and_error (fail_rows (fst (main cw w df)))
       = failed_pages (zip df (page_outcomes fetch_with_backoff cw w io0 df))
   \<and> snd (main cw w df)
       = (if fail_rows (fst (main cw w df)) = [] then None else Some (fail_rows (fst (main cw w df))))
   \<and> length (stdout (fst (main cw w df)))
       = length df + (if snd (main cw w df) = None then 0 else 1)
   \<and> length (page_outcomes (fetch_with_backoff_v3 format_exc) cw w io0 df) = length df
   \<and> map identity_and_error (fail_rows (fst (main_v3 format_exc cw w df)))
       = failed_pages (zip df (page_outcomes (fetch_with_backoff_v3 format_exc) cw w io0 df))
   \<and> snd (main_v3 format_exc cw w df)
       = (if fail_rows (fst (main_v3 format_exc cw w df)) = [] then None
          else Some (fail_rows (fst (main_v3 format_exc cw w df))))
   \<and> length (stdout (fst (main_v3 format_exc cw w df)))
       = length df + (if snd (main_v3 format_exc cw w df) = None then 0 else 1)"
  unfolding main_def main_v3_def
  using crawl_report[of fetch_with_backoff cw w df "\<lambda>e. None"]
    crawl_report[of "fetch_with_backoff_v3 format_exc" cw w df "\<lambda>e. Some (format_exc e)"]
  by simp

text \<open>
  The run over the four pages: retries exhausted, an API error, an empty page, and a page
  written; three records, five lines.
\<close>

theorem failures_recorded_witness:
  "map identity_and_error (fail_rows (fst (main sample_writer four_pages four_rows)))
     = [(11, ''T'', ''u'', ''Max retries exceeded''),
        (12, ''T'', ''u'', ''API error: {'' @ [CHR 0x27] @ ''code'' @ [CHR 0x27] @ '': '' @ [CHR 0x27] @ ''nosuchpageid'' @ [CHR 0x27] @ ''}''),
        (13, ''T'', ''u'', ''Empty HTML content'')]
   \<and> length (stdout (fst (main sample_writer four_pages four_rows))) = 5
   \<and> map_option (map identity_and_error) (snd (main sample_writer four_pages four_rows))
       = Some (map identity_and_error (fail_rows (fst (main sample_writer four_pages four_rows))))"
proof -
  have o: "failed_pages (zip four_rows (page_outcomes fetch_with_backoff sample_writer four_pages io0 four_rows))
     = [(11, ''T'', ''u'', ''Max retries exceeded''),
        (12, ''T'', ''u'', ''API error: {'' @ [CHR 0x27] @ ''code'' @ [CHR 0x27] @ '': '' @ [CHR 0x27] @ ''nosuchpageid'' @ [CHR 0x27] @ ''}''),
        (13, ''T'', ''u'', ''Empty HTML content'')]"
    by code_simp
  have l: "length four_rows = 4" by (simp add: four_rows_def)
  note t = failures_recorded[of sample_writer four_pages four_rows]
  from t o have f: "map identity_and_error (fail_rows (fst (main sample_writer four_pages four_rows)))
     = [(11, ''T'', ''u'', ''Max retries exceeded''),
        (12, ''T'', ''u'', ''API error: {'' @ [CHR 0x27] @ ''code'' @ [CHR 0x27] @ '': '' @ [CHR 0x27] @ ''nosuchpageid'' @ [CHR 0x27] @ ''}''),
        (13, ''T'', ''u'', ''Empty HTML content'')]"
    by simp
  then have ne: "fail_rows (fst (main sample_writer four_pages four_rows)) \<noteq> []" by auto
  from t ne have s: "snd (main sample_writer four_pages four_rows)
      = Some (fail_rows (fst (main sample_writer four_pages four_rows)))" by simp
  from t s l have n: "length (stdout (fst (main sample_writer four_pages four_rows))) = 5" by simp
  from f s n show ?thesis by simp
qed
section \<open>The crawler stops at the first answer without a continuation\<close>

lemma map_of_dict_set: "map_of (dict_set k v d) = (map_of d)(k \<mapsto> v)"
  by (induction d) auto

lemma map_of_merge_rev: "map_of (merge a b) = map_of a ++ map_of (rev b)"
  unfolding merge_def
proof (induction b arbitrary: a)
  case Nil
  then show ?case by simp
next
  case (Cons kv b)
  obtain k v where kv: "kv = (k, v)" by (cases kv)
  have "map_of (fold (\<lambda>(k, v). dict_set k v) b (dict_set k v a))
          = (map_of a)(k \<mapsto> v) ++ map_of (rev b)"
    using Cons.IH[of "dict_set k v a"] by (simp add: map_of_dict_set fun_upd_def)
  also have "\<dots> = map_of a ++ (map_of (rev b @ [(k, v)]))"
    by (simp add: map_add_def fun_eq_iff split: option.splits)
  finally show ?case by (simp add: kv)
qed

lemma map_of_merge:
  assumes "distinct (map fst b)"
  shows "map_of (merge a b) = map_of a ++ map_of b"
proof -
  have "map_of (rev b) = map_of b"
    using assms by (intro map_of_inject_set[THEN iffD2]) (simp_all add: rev_map[symmetric])
  then show ?thesis by (simp add: map_of_merge_rev)
qed

lemma iteration_not_object:
  "\<not> is_object cont \<Longrightarrow> iteration w params cont st = Inr (cont, st\<lparr>naps := naps st @ [3 / 2]\<rparr>)"
  by (cases cont) (simp_all add: iteration_def is_object_def)

lemma never_returns:
  assumes "page_loop w params cont st = Some y"
  shows "is_object cont"
  using assms
proof (induction rule: page_loop.raw_induct[rotated 1, consumes 1])
  case (1 page_loop' w params cont st y)
  show ?case
  proof (rule ccontr)
    assume n: "\<not> is_object cont"
    from 1(2) iteration_not_object[OF n, of w params st]
    have "page_loop' w params cont (st\<lparr>naps := naps st @ [3 / 2]\<rparr>) = Some y" by simp
    from 1(1)[OF this] n show False by simp
  qed
qed

lemma iteration_carries_on:
  assumes "is_object cont" and "carries_on (w (length (requests st)))"
  shows "\<exists>st'. iteration w params cont st = Inr (next_cursor (w (length (requests st))) cont, st')
           \<and> requests st' = requests st @ [merge params (the_fields cont)]
           \<and> yielded st' = yielded st @ pages_at (w (length (requests st)))
           \<and> is_object (next_cursor (w (length (requests st))) cont)"
  using assms
  by (auto simp: iteration_def carries_on_def pages_at_def next_cursor_def is_object_def the_fields_def
        Let_def split: json.splits sum.splits bool.splits)

lemma iteration_last_answer:
  assumes "is_object cont" and "last_answer (w (length (requests st)))"
  shows "\<exists>st'. iteration w params cont st = Inl (None, st')
           \<and> requests st' = requests st @ [merge params (the_fields cont)]
           \<and> yielded st' = yielded st @ pages_at (w (length (requests st)))"
  using assms
  by (auto simp: iteration_def last_answer_def pages_at_def is_object_def the_fields_def
        Let_def split: json.splits sum.splits bool.splits)

lemma page_loop_runs:
  assumes fin: "last_answer (w k)" and go: "\<forall>i<k. carries_on (w i)"
  shows "length (requests st) \<le> k \<Longrightarrow> is_object cont \<Longrightarrow> cont = cursor w (length (requests st)) \<Longrightarrow>
         \<exists>st'. page_loop w params cont st = Some (None, st')
            \<and> requests st' = requests st
                 @ map (\<lambda>i. merge params (the_fields (cursor w i))) [length (requests st) ..< k + 1]
            \<and> yielded st' = yielded st @ concat (map (\<lambda>i. pages_at (w i)) [length (requests st) ..< k + 1])"
proof (induction "k - length (requests st)" arbitrary: st cont)
  case 0
  then have n: "length (requests st) = k" by simp
  from iteration_last_answer[OF "0.prems"(2), of w st params] fin n obtain st' where
    s: "iteration w params cont st = Inl (None, st')"
       "requests st' = requests st @ [merge params (the_fields cont)]"
       "yielded st' = yielded st @ pages_at (w k)" by auto
  have "page_loop w params cont st = Some (None, st')"
    by (subst page_loop.simps) (simp add: s(1))
  with s n "0.prems"(3) show ?case by simp
next
  case (Suc m)
  then have n: "length (requests st) < k" by simp
  let ?n = "length (requests st)"
  from iteration_carries_on[OF Suc.prems(2), of w st params] go n obtain st1 where
    s: "iteration w params cont st = Inr (next_cursor (w ?n) cont, st1)"
       "requests st1 = requests st @ [merge params (the_fields cont)]"
       "yielded st1 = yielded st @ pages_at (w ?n)"
       "is_object (next_cursor (w ?n) cont)" by blast
  have len: "length (requests st1) = Suc ?n" using s(2) by simp
  have c: "next_cursor (w ?n) cont = cursor w (length (requests st1))"
    using Suc.prems(3) len by simp
  have m: "m = k - length (requests st1)" using Suc.hyps(2) len by simp
  have le: "length (requests st1) \<le> k" using n len by simp
  from Suc.hyps(1)[OF m le s(4) c, of ] obtain st' where
    r: "page_loop w params (next_cursor (w ?n) cont) st1 = Some (None, st')"
       "requests st' = requests st1
          @ map (\<lambda>i. merge params (the_fields (cursor w i))) [length (requests st1) ..< k + 1]"
       "yielded st' = yielded st1 @ concat (map (\<lambda>i. pages_at (w i)) [length (requests st1) ..< k + 1])"
    by blast
  have u: "[?n ..< k + 1] = ?n # [Suc ?n ..< k + 1]" using n by (simp add: upt_rec)
  have "page_loop w params cont st = Some (None, st')"
    by (subst page_loop.simps) (simp add: s(1) r(1))
  with r s len Suc.prems(3) u show ?case by simp
qed

lemma cursor_after_answer:
  assumes "fetch_json (w i) = Inr data" and "py_item data ''continue'' = Inr c"
  shows "cursor w (Suc i) = c"
  using assms by (simp add: next_cursor_def)

lemma cursor_after_failure:
  assumes "fetch_json (w i) = Inl e"
  shows "cursor w (Suc i) = cursor w i"
  using assms by (simp add: next_cursor_def)

text \<open>
  C8, for continuation values that are objects. Let the replies before the k-th be failed
  requests or answers that carry a \<open>continue\<close> object, and the k-th an answer without
  \<open>continue\<close>. Then the generator returns normally after exactly k + 1 requests, having
  yielded the pages of all these answers in order, those of the last one included,
  however few. The first request has the fixed parameters; the request after an answer
  has them merged with the \<open>continue\<close> object of that answer, every key of the object with
  its value; the request after a failure repeats the one before.
\<close>

theorem crawl_terminates:
  assumes "last_answer (w k)" and "\<forall>i<k. carries_on (w i)"
  shows "\<exists>st. page_generator w gaplimit namespace = Some (None, st)
            \<and> length (requests st) = k + 1
            \<and> yielded st = concat (map (\<lambda>i. pages_at (w i)) [0 ..< k + 1])
            \<and> requests st ! 0 = query_params gaplimit namespace
            \<and> (\<forall>i<k. \<forall>data c. fetch_json (w i) = Inr data \<and> py_item data ''continue'' = Inr (JObj c) \<longrightarrow>
                  requests st ! Suc i = merge (query_params gaplimit namespace) c
                  \<and> (distinct (map fst c) \<longrightarrow>
                       map_of (requests st ! Suc i) = map_of (query_params gaplimit namespace) ++ map_of c))
            \<and> (\<forall>i<k. \<forall>e. fetch_json (w i) = Inl e \<longrightarrow> requests st ! Suc i = requests st ! i)"
proof -
  let ?p = "query_params gaplimit namespace"
  have r0: "requests crawl0 = []" "yielded crawl0 = []" by (simp_all add: crawl0_def)
  have h1: "length (requests crawl0) \<le> k" by (simp add: r0)
  have h2: "is_object (JObj [])" by (simp add: is_object_def)
  have h3: "JObj [] = cursor w (length (requests crawl0))" by (simp add: r0)
  from page_loop_runs[OF assms h1 h2 h3, of ?p] obtain st where
    st0: "page_loop w ?p (JObj []) crawl0 = Some (None, st)"
        "requests st = requests crawl0
           @ map (\<lambda>i. merge ?p (the_fields (cursor w i))) [length (requests crawl0) ..< k + 1]"
        "yielded st = yielded crawl0
           @ concat (map (\<lambda>i. pages_at (w i)) [length (requests crawl0) ..< k + 1])"
    by blast
  have st: "page_loop w ?p (JObj []) crawl0 = Some (None, st)"
        "requests st = map (\<lambda>i. merge ?p (the_fields (cursor w i))) [0 ..< k + 1]"
        "yielded st = concat (map (\<lambda>i. pages_at (w i)) [0 ..< k + 1])"
    using st0 unfolding r0 by simp_all
  have nth: "requests st ! i = merge ?p (the_fields (cursor w i))" if "i < k + 1" for i
  proof -
    have "map (\<lambda>i. merge ?p (the_fields (cursor w i))) [0 ..< k + 1] ! i
            = merge ?p (the_fields (cursor w ([0 ..< k + 1] ! i)))"
      using that by (intro nth_map) simp
    also have "[0 ..< k + 1] ! i = i" using that by (simp del: upt_Suc)
    finally show ?thesis unfolding st(2) .
  qed
  have "merge ?p (the_fields (cursor w 0)) = ?p" by (simp add: the_fields_def merge_def)
  then have z: "requests st ! 0 = ?p" using nth[of 0] by simp
  have a: "requests st ! Suc i = merge ?p c
           \<and> (distinct (map fst c) \<longrightarrow> map_of (requests st ! Suc i) = map_of ?p ++ map_of c)"
    if "i < k" "fetch_json (w i) = Inr data" "py_item data ''continue'' = Inr (JObj c)" for i data c
  proof -
    have "cursor w (Suc i) = JObj c" using that(2,3) by (rule cursor_after_answer)
    then have "requests st ! Suc i = merge ?p c"
      using nth[of "Suc i"] that(1) by (simp add: the_fields_def)
    then show ?thesis using map_of_merge[of c ?p] by simp
  qed
  have f: "requests st ! Suc i = requests st ! i" if "i < k" "fetch_json (w i) = Inl e" for i e
  proof -
    have "cursor w (Suc i) = cursor w i" using that(2) by (rule cursor_after_failure)
    then show ?thesis using nth[of "Suc i"] nth[of i] that(1) by simp
  qed
  have len: "length (requests st) = k + 1" unfolding st(2) by simp
  have g: "page_generator w gaplimit namespace = Some (None, st)"
    unfolding page_generator_def by (rule st(1))
  show ?thesis
  proof (intro exI[of _ st] conjI allI impI)
    show "page_generator w gaplimit namespace = Some (None, st)" by (rule g)
    show "length (requests st) = k + 1" by (rule len)
    show "yielded st = concat (map (\<lambda>i. pages_at (w i)) [0 ..< k + 1])" by (rule st(3))
    show "requests st ! 0 = ?p" by (rule z)
  next
    fix i data c
    assume "i < k" "fetch_json (w i) = Inr data \<and> py_item data ''continue'' = Inr (JObj c)"
    then show "requests st ! Suc i = merge ?p c" using a by blast
  next
    fix i data c
    assume "i < k" "fetch_json (w i) = Inr data \<and> py_item data ''continue'' = Inr (JObj c)"
      "distinct (map fst c)"
    then show "map_of (requests st ! Suc i) = map_of ?p ++ map_of c" using a by blast
  next
    fix i e
    assume "i < k" "fetch_json (w i) = Inl e"
    then show "requests st ! Suc i = requests st ! i" by (rule f)
  qed
qed

text \<open>
  C8 as the spec states it, for every sequence, fails: when the first answer has a string
  under \<open>continue\<close>, the merge raises inside the \<open>try\<close> block on every pass, no further
  request is sent, and the generator never returns, although the second answer of the
  server has no \<open>continue\<close>.
\<close>

theorem string_cursor_counterexample:
  "fetch_json (string_cursor 1) = Inr (JObj [(''batchcomplete'', JBool True)])
   \<and> py_in ''continue'' (JObj [(''batchcomplete'', JBool True)]) = Inr False
   \<and> page_generator string_cursor 200 0 = None"
proof -
  have a: "fetch_json (string_cursor 1) = Inr (JObj [(''batchcomplete'', JBool True)])"
    by (simp add: fetch_json_def string_cursor_def)
  have b: "py_in ''continue'' (JObj [(''batchcomplete'', JBool True)]) = Inr False"
    by (simp add: py_in_def)
  have "\<exists>st. iteration string_cursor (query_params 200 0) (JObj []) crawl0 = Inr (JStr ''B'', st)"
    by (simp add: iteration_def crawl0_def fetch_json_def string_cursor_def pages_of_def py_in_def
        py_item_def Let_def)
  then obtain st where i: "iteration string_cursor (query_params 200 0) (JObj []) crawl0 = Inr (JStr ''B'', st)"
    by blast
  have "page_loop string_cursor (query_params 200 0) (JStr ''B'') st = None"
    using never_returns[of string_cursor "query_params 200 0" "JStr ''B''" st]
    by (cases "page_loop string_cursor (query_params 200 0) (JStr ''B'') st") (auto simp: is_object_def)
  then have "page_generator string_cursor 200 0 = None"
    unfolding page_generator_def by (subst page_loop.simps) (simp add: i)
  with a b show ?thesis by simp
qed

text \<open>
  The server with two batches: an answer with two pages and a \<open>continue\<close> object, a
  time-out, and a last answer with no pages. Three requests; the second carries the
  \<open>gapcontinue\<close> value and the third repeats it.
\<close>

theorem crawl_terminates_witness:
  "last_answer (two_batches 2) \<and> pages_at (two_batches 2) = []
   \<and> carries_on (two_batches 0) \<and> carries_on (two_batches 1)
   \<and> map_option (\<lambda>(out, st). (out, length (requests st), yielded st,
                                map_of (requests st ! 1) ''gapcontinue'', requests st ! 2 = requests st ! 1))
        (page_generator two_batches 200 0)
       = Some (None, 3, [JObj [(''pageid'', JInt 1)], JObj [(''pageid'', JInt 2)]], Some (JStr ''B''), True)"
proof -
  have l: "last_answer (two_batches 2)" by code_simp
  have p: "pages_at (two_batches 2) = []" by code_simp
  have c0: "carries_on (two_batches 0)" by code_simp
  have c1: "carries_on (two_batches 1)" by code_simp
  have go: "\<forall>i<2. carries_on (two_batches i)" using c0 c1 by (simp add: less_Suc_eq numeral_2_eq_2)
  from crawl_terminates[OF l go, of 200 0] obtain st where
    st: "page_generator two_batches 200 0 = Some (None, st)" "length (requests st) = 2 + 1"
    by blast
  have e: "map_option (\<lambda>(out, st). (out, length (requests st), yielded st,
                                map_of (requests st ! 1) ''gapcontinue'', requests st ! 2 = requests st ! 1))
        (page_generator two_batches 200 0)
       = Some (None, 3, [JObj [(''pageid'', JInt 1)], JObj [(''pageid'', JInt 2)]], Some (JStr ''B''), True)"
    by code_simp
  from l p c0 c1 e show ?thesis by blast
qed
section \<open>Unknown elements pass through\<close>












section \<open>Headings named Intro\<close>

lemma intro_first_word: "hd (split_ws ''intro'') = ''intro''"
  by code_simp

text \<open>
  C10. A section whose key is "intro" is never banned; when its body is not empty it is
  appended as the body alone, with no heading marker. So a page that starts with a real
  heading "Intro" and a page that starts with the same text under no heading give the
  same output.
\<close>

theorem intro_heading_erased:
  "(lower (heading_title title_html) = ''intro'' \<longrightarrow>
      section_part title_html body_html
        = (if clean_text body_html = [] then None else Some (clean_text body_html)))
   \<and> clean_pagecontent [(''text'', JStr ''<h2>Intro</h2><p>Hello</p><h2>History</h2><p>Old.</p>'')]
       = ''Hello\<newline>\<newline>## History\<newline>\<newline>Old.''
   \<and> clean_pagecontent [(''text'', JStr ''<p>Hello</p><h2>History</h2><p>Old.</p>'')]
       = ''Hello\<newline>\<newline>## History\<newline>\<newline>Old.''"
proof -
  have g: "section_part title_html body_html
        = (if clean_text body_html = [] then None else Some (clean_text body_html))"
    if "lower (heading_title title_html) = ''intro''"
    using that intro_first_word by (simp add: section_part_def Let_def BANNED_SECTIONS_def)
  have a: "clean_pagecontent [(''text'', JStr ''<h2>Intro</h2><p>Hello</p><h2>History</h2><p>Old.</p>'')]
       = ''Hello\<newline>\<newline>## History\<newline>\<newline>Old.''" by code_simp
  have b: "clean_pagecontent [(''text'', JStr ''<p>Hello</p><h2>History</h2><p>Old.</p>'')]
       = ''Hello\<newline>\<newline>## History\<newline>\<newline>Old.''" by code_simp
  from g a b show ?thesis by blast
qed

text \<open>A heading written \<open><span>INTRO</span>[]\<close> in the markup.\<close>

theorem intro_heading_erased_witness:
  "lower (heading_title ''<span>INTRO</span>[]'') = ''intro''
   \<and> clean_text ''<p>Hello</p>'' = ''Hello''
   \<and> section_part ''<span>INTRO</span>[]'' ''<p>Hello</p>'' = Some ''Hello''"
proof -
  have k: "lower (heading_title ''<span>INTRO</span>[]'') = ''intro''" by code_simp
  have c: "clean_text ''<p>Hello</p>'' = ''Hello''" by code_simp
  from k c intro_heading_erased[of "''<span>INTRO</span>[]''" "''<p>Hello</p>''"]
  show ?thesis by simp
qed
end
